theory Spec2Isabelle
  imports Complex_Main "HOL-Library.Sublist"
begin

section \<open>The rules engine as seen by the search (services/ChessEngine.ts)\<close>

text \<open>
  The application delegates all chess rules to the external library @rumenx/chess.
  \<open>ChessEngine\<close> is a thin wrapper around one \<open>Game\<close> object of that library. The
  library is not part of the repository, so a game is modelled by the operations the
  wrapper calls on it, over an arbitrary type \<open>'s\<close> of game states. Mutating methods
  return the new state next to their result; observers are functions of the state.
\<close>

datatype Color = White | Black

text \<open>A piece as the library hands it out: \<open>{type, color}\<close>. The type is the string
  the source switches on (\<open>'pawn'\<close>, \<open>'knight'\<close>, ...).\<close>

record Piece =
  piece_type :: string
  piece_color :: Color

text \<open>A move object of the library, with the fields the search reads.\<close>

record Move =
  move_from :: string
  move_to :: string
  move_piece :: Piece
  move_captured :: "Piece option"
  move_promotion :: "string option"

record 's Game =
  game_move :: "'s \<Rightarrow> string \<Rightarrow> string \<Rightarrow> string option \<Rightarrow> Move option \<times> 's"
  game_undo :: "'s \<Rightarrow> Move option \<times> 's"
  game_getLegalMoves :: "'s \<Rightarrow> Move list"
  game_getFen :: "'s \<Rightarrow> string"
  game_getStatus :: "'s \<Rightarrow> string"
  game_getTurn :: "'s \<Rightarrow> Color"
  game_getBoard :: "'s \<Rightarrow> Piece option list list"
  game_isGameOver :: "'s \<Rightarrow> bool"

text \<open>\<open>ChessEngine.makeMove(from, to, promotion)\<close>: the executed move, or null when the
  library rejects it.\<close>

definition makeMove ::
  "'s Game \<Rightarrow> 's \<Rightarrow> string \<Rightarrow> string \<Rightarrow> string option \<Rightarrow> Move option \<times> 's" where
  "makeMove G s from to promotion = game_move G s from to promotion"

definition getLegalMoves :: "'s Game \<Rightarrow> 's \<Rightarrow> Move list" where
  "getLegalMoves G s = game_getLegalMoves G s"

definition undo :: "'s Game \<Rightarrow> 's \<Rightarrow> Move option \<times> 's" where
  "undo G s = game_undo G s"

definition getFEN :: "'s Game \<Rightarrow> 's \<Rightarrow> string" where
  "getFEN G s = game_getFen G s"

definition getStatus :: "'s Game \<Rightarrow> 's \<Rightarrow> string" where
  "getStatus G s = game_getStatus G s"

definition getTurn :: "'s Game \<Rightarrow> 's \<Rightarrow> Color" where
  "getTurn G s = game_getTurn G s"

definition getBoard :: "'s Game \<Rightarrow> 's \<Rightarrow> Piece option list list" where
  "getBoard G s = game_getBoard G s"

definition isGameOver :: "'s Game \<Rightarrow> 's \<Rightarrow> bool" where
  "isGameOver G s = game_isGameOver G s"

text \<open>\<open>ChessEngine.getResult()\<close>: a switch on the status string; on checkmate the side
  to move has lost.\<close>

definition getResult :: "'s Game \<Rightarrow> 's \<Rightarrow> string" where
  "getResult G s =
     (let status = getStatus G s in
      if status = ''checkmate'' then (if getTurn G s = White then ''0-1'' else ''1-0'')
      else if status = ''stalemate'' \<or> status = ''draw'' \<or> status = ''insufficient_material''
              \<or> status = ''threefold_repetition'' \<or> status = ''fifty_move_rule''
        then ''1/2-1/2''
      else ''*'')"

text \<open>
  The data model requires \<open>makeMove\<close> and \<open>undo\<close> to be symmetric: undoing an accepted
  move restores the state it was made from. The search also relies on a rejected move
  (result null) leaving the game as it was, since it issues no undo for it.
\<close>

definition make_undo_symmetric :: "'s Game \<Rightarrow> bool" where
  "make_undo_symmetric G =
     (\<forall>s from to promotion.
        case game_move G s from to promotion of
          (None, s') \<Rightarrow> s' = s
        | (Some m, s') \<Rightarrow> snd (game_undo G s') = s)"

section \<open>The search (services/ChessAI.ts)\<close>

text \<open>Scores are JavaScript numbers that are either a finite material balance or one of
  the two infinities.\<close>

datatype score = NegInf | Fin int | PosInf

fun score_less :: "score \<Rightarrow> score \<Rightarrow> bool" where
  "score_less NegInf NegInf = False"
| "score_less NegInf _ = True"
| "score_less (Fin a) (Fin b) = (a < b)"
| "score_less (Fin a) PosInf = True"
| "score_less (Fin a) NegInf = False"
| "score_less PosInf _ = False"

definition score_ge :: "score \<Rightarrow> score \<Rightarrow> bool" where
  "score_ge a b = (\<not> score_less a b)"

definition score_max :: "score \<Rightarrow> score \<Rightarrow> score" where
  "score_max a b = (if score_less a b then b else a)"

definition score_min :: "score \<Rightarrow> score \<Rightarrow> score" where
  "score_min a b = (if score_less b a then b else a)"

text \<open>\<open>ChessAI.depthForLevel\<close>: the level is a string at run time (the local provider
  passes an unchecked one), and every unknown level gets depth 0.\<close>

definition depthForLevel :: "string \<Rightarrow> nat" where
  "depthForLevel level =
     (if level = ''harmless'' \<or> level = ''random'' then 0
      else if level = ''easy'' then 1
      else if level = ''medium'' then 2
      else if level = ''hard'' then 3
      else if level = ''expert'' then 4
      else if level = ''godlike'' then 5
      else 0)"

definition pieceValue :: "Piece \<Rightarrow> int" where
  "pieceValue piece =
     (let t = piece_type piece in
      if t = ''pawn'' then 100
      else if t = ''knight'' \<or> t = ''bishop'' then 300
      else if t = ''rook'' then 500
      else if t = ''queen'' then 900
      else if t = ''king'' then 10000
      else 0)"

definition captureValue :: "Move \<Rightarrow> int" where
  "captureValue move =
     (case move_captured move of
        None \<Rightarrow> 0
      | Some c \<Rightarrow> pieceValue \<lparr>piece_type = piece_type c, piece_color = piece_color c\<rparr>)"

text \<open>\<open>ChessAI.evaluate\<close>: the two nested loops over the board accumulate the score;
  afterwards a decided game overrides it.\<close>

definition evaluate :: "'s Game \<Rightarrow> Color \<Rightarrow> 's \<Rightarrow> score" where
  "evaluate G maximizingColor s =
     (let board = getBoard G s;
          score = fold (\<lambda>row sc.
                    fold (\<lambda>cell sc'.
                      case cell of
                        None \<Rightarrow> sc'
                      | Some piece \<Rightarrow>
                          sc' + (if piece_color piece = maximizingColor
                                 then pieceValue piece else - pieceValue piece))
                      row sc)
                    board (0::int)
      in if isGameOver G s then
           (let result = getResult G s in
            if result = ''1-0'' then (if maximizingColor = White then PosInf else NegInf)
            else if result = ''0-1'' then (if maximizingColor = Black then PosInf else NegInf)
            else Fin score)
         else Fin score)"

text \<open>
  The two loops of \<open>minimax\<close>. \<open>child\<close> is the recursive call one ply deeper. A move the
  engine rejects is skipped without an undo; an accepted move is searched, undone, and
  the loop leaves early on \<open>alpha >= beta\<close>.
\<close>

fun maxLoop ::
  "(score \<Rightarrow> score \<Rightarrow> 's \<Rightarrow> score \<times> 's) \<Rightarrow> 's Game \<Rightarrow> Move list \<Rightarrow> score \<Rightarrow> score \<Rightarrow> score
     \<Rightarrow> 's \<Rightarrow> score \<times> 's" where
  "maxLoop child G [] val alpha beta s = (val, s)"
| "maxLoop child G (move # rest) val alpha beta s =
     (case makeMove G s (move_from move) (move_to move) (move_promotion move) of
        (None, s1) \<Rightarrow> maxLoop child G rest val alpha beta s1
      | (Some applied, s1) \<Rightarrow>
          (case child alpha beta s1 of
             (childValue, s2) \<Rightarrow>
               (let s3 = snd (undo G s2);
                    val' = score_max val childValue;
                    alpha' = score_max alpha val'
                in if score_ge alpha' beta then (val', s3)
                   else maxLoop child G rest val' alpha' beta s3)))"

fun minLoop ::
  "(score \<Rightarrow> score \<Rightarrow> 's \<Rightarrow> score \<times> 's) \<Rightarrow> 's Game \<Rightarrow> Move list \<Rightarrow> score \<Rightarrow> score \<Rightarrow> score
     \<Rightarrow> 's \<Rightarrow> score \<times> 's" where
  "minLoop child G [] val alpha beta s = (val, s)"
| "minLoop child G (move # rest) val alpha beta s =
     (case makeMove G s (move_from move) (move_to move) (move_promotion move) of
        (None, s1) \<Rightarrow> minLoop child G rest val alpha beta s1
      | (Some applied, s1) \<Rightarrow>
          (case child alpha beta s1 of
             (childValue, s2) \<Rightarrow>
               (let s3 = snd (undo G s2);
                    val' = score_min val childValue;
                    beta' = score_min beta val'
                in if score_ge alpha beta' then (val', s3)
                   else minLoop child G rest val' alpha beta' s3)))"

text \<open>\<open>ChessAI.minimax\<close>, by recursion on the remaining depth (a natural number: the
  root passes \<open>effectiveDepth - 1\<close> with \<open>effectiveDepth >= 1\<close>, and every level subtracts
  one until the test \<open>depth === 0\<close> holds).\<close>

primrec minimax ::
  "nat \<Rightarrow> 's Game \<Rightarrow> Color \<Rightarrow> score \<Rightarrow> score \<Rightarrow> 's \<Rightarrow> score \<times> 's" where
  "minimax 0 G maximizingColor alpha beta s = (evaluate G maximizingColor s, s)"
| "minimax (Suc depth) G maximizingColor alpha beta s =
     (if isGameOver G s then (evaluate G maximizingColor s, s)
      else
        (let legalMoves = getLegalMoves G s in
         if length legalMoves = 0 then (evaluate G maximizingColor s, s)
         else
           (let currentTurn = getTurn G s;
                isMaximizing = (currentTurn = maximizingColor)
            in if isMaximizing
               then maxLoop (minimax depth G maximizingColor) G legalMoves NegInf alpha beta s
               else minLoop (minimax depth G maximizingColor) G legalMoves PosInf alpha beta s)))"

text \<open>The root loop of \<open>computeBestMove\<close> over the ordered candidates.\<close>

fun rootLoop ::
  "'s Game \<Rightarrow> nat \<Rightarrow> Color \<Rightarrow> Move list \<Rightarrow> Move option \<Rightarrow> score \<Rightarrow> 's \<Rightarrow> Move option \<times> 's" where
  "rootLoop G effectiveDepth maximizingColor [] bestMove bestScore s = (bestMove, s)"
| "rootLoop G effectiveDepth maximizingColor (move # rest) bestMove bestScore s =
     (case makeMove G s (move_from move) (move_to move) (move_promotion move) of
        (None, s1) \<Rightarrow> rootLoop G effectiveDepth maximizingColor rest bestMove bestScore s1
      | (Some applied, s1) \<Rightarrow>
          (case minimax (effectiveDepth - 1) G maximizingColor NegInf PosInf s1 of
             (score, s2) \<Rightarrow>
               (let s3 = snd (undo G s2) in
                if score_less bestScore score
                then rootLoop G effectiveDepth maximizingColor rest (Some move) score s3
                else rootLoop G effectiveDepth maximizingColor rest bestMove bestScore s3)))"

text \<open>The candidate ordering: a stable sort by descending capture value
  (\<open>Array.prototype.sort\<close> is stable, and the comparator is \<open>bCap - aCap\<close>).\<close>

definition orderMoves :: "Move list \<Rightarrow> Move list" where
  "orderMoves legalMoves = sort_key (\<lambda>m. - captureValue m) legalMoves"

text \<open>
  \<open>ChessAI.computeBestMove\<close>. In the depth-0 branch the index is
  \<open>Math.floor(Math.random() * legal.length)\<close>, a product of double-precision numbers
  whose rounding the model does not compute: \<open>randomIndex n\<close> stands for the value of
  that expression when the list has \<open>n\<close> entries, and nothing is assumed about it. An
  index outside the array reads \<open>undefined\<close> in JavaScript, which the model renders as
  no move.
\<close>

definition computeBestMove ::
  "'s Game \<Rightarrow> (nat \<Rightarrow> int) \<Rightarrow> string \<Rightarrow> 's \<Rightarrow> Move option \<times> 's" where
  "computeBestMove G randomIndex level s =
     (let depth = depthForLevel level in
      if depth = 0 then
        (let legal = getLegalMoves G s in
         if length legal = 0 then (None, s)
         else
           (let i = randomIndex (length legal) in
            if 0 \<le> i \<and> i < int (length legal) then (Some (legal ! nat i), s) else (None, s)))
      else
        (let legalMoves = getLegalMoves G s;
             effectiveDepth = (if length legalMoves > 60 \<and> depth > 3 then 3 else depth);
             maximizingColor = getTurn G s
         in rootLoop G effectiveDepth maximizingColor (orderMoves legalMoves) None NegInf s))"

text \<open>
  To observe which engine calls a search issues, any game can be wrapped so that it also
  records them: an accepted \<open>makeMove\<close>, a rejected one, an \<open>undo\<close>. The wrapped game
  answers every call exactly as the game it wraps.
\<close>

datatype engineCall = Accepted | Rejected | Undone

definition recording :: "'s Game \<Rightarrow> ('s \<times> engineCall list) Game" where
  "recording G =
     \<lparr>game_move = (\<lambda>(s, calls) from to promotion.
         case game_move G s from to promotion of
           (None, s') \<Rightarrow> (None, (s', calls @ [Rejected]))
         | (Some m, s') \<Rightarrow> (Some m, (s', calls @ [Accepted]))),
      game_undo = (\<lambda>(s, calls). case game_undo G s of (m, s') \<Rightarrow> (m, (s', calls @ [Undone]))),
      game_getLegalMoves = (\<lambda>(s, calls). game_getLegalMoves G s),
      game_getFen = (\<lambda>(s, calls). game_getFen G s),
      game_getStatus = (\<lambda>(s, calls). game_getStatus G s),
      game_getTurn = (\<lambda>(s, calls). game_getTurn G s),
      game_getBoard = (\<lambda>(s, calls). game_getBoard G s),
      game_isGameOver = (\<lambda>(s, calls). game_isGameOver G s)\<rparr>"

text \<open>
  \<open>pending calls k\<close>: starting with \<open>k\<close> accepted moves not yet undone, the number of them
  after the calls, or nothing if some \<open>undo\<close> found no move of the search to undo. A list
  of calls is paired when, read from 0, it ends at 0: every accepted move is followed
  by an undo of its own. It is neutral when it returns to every level it starts from.
\<close>

fun pending :: "engineCall list \<Rightarrow> nat \<Rightarrow> nat option" where
  "pending [] k = Some k"
| "pending (Accepted # cs) k = pending cs (Suc k)"
| "pending (Rejected # cs) k = pending cs k"
| "pending (Undone # cs) 0 = None"
| "pending (Undone # cs) (Suc k) = pending cs k"

definition paired :: "engineCall list \<Rightarrow> bool" where
  "paired cs = (pending cs 0 = Some 0)"

definition neutral :: "engineCall list \<Rightarrow> bool" where
  "neutral cs = (\<forall>k. pending cs k = Some k)"

definition appends_neutral :: "('s \<times> engineCall list) \<Rightarrow> ('s \<times> engineCall list) \<Rightarrow> bool" where
  "appends_neutral before after = (\<exists>w. snd after = snd before @ w \<and> neutral w)"

text \<open>
  \<open>peak calls k\<close>: starting with \<open>k\<close> accepted moves not yet undone, the largest number of
  them at any moment of the calls. Read from 0 it is the deepest ply a search reached.
  A list of calls stays within \<open>d\<close> plies when it is neutral and never has more than
  \<open>d\<close> moves of its own pending; it reaches \<open>d\<close> plies when that bound is attained.
\<close>

fun peak :: "engineCall list \<Rightarrow> nat \<Rightarrow> nat" where
  "peak [] k = k"
| "peak (Accepted # cs) k = max k (peak cs (Suc k))"
| "peak (Rejected # cs) k = max k (peak cs k)"
| "peak (Undone # cs) k = max k (peak cs (k - 1))"

definition deepestPly :: "engineCall list \<Rightarrow> nat" where
  "deepestPly cs = peak cs 0"

definition plies_within :: "nat \<Rightarrow> engineCall list \<Rightarrow> bool" where
  "plies_within d cs = (\<forall>k. pending cs k = Some k \<and> peak cs k \<le> k + d)"

definition plies_reach :: "nat \<Rightarrow> engineCall list \<Rightarrow> bool" where
  "plies_reach d cs = (\<forall>k. pending cs k = Some k \<and> peak cs k = k + d)"

definition appends :: "(engineCall list \<Rightarrow> bool) \<Rightarrow> ('s \<times> engineCall list)
     \<Rightarrow> ('s \<times> engineCall list) \<Rightarrow> bool" where
  "appends P before after = (\<exists>w. snd after = snd before @ w \<and> P w)"

text \<open>
  The calls one \<open>computeBestMove\<close> issues to the engine, from a fresh record; and the depth
  it computes before the root loop (\<open>effectiveDepth\<close> in the source).
\<close>

definition searchCalls :: "'s Game \<Rightarrow> (nat \<Rightarrow> int) \<Rightarrow> string \<Rightarrow> 's \<Rightarrow> engineCall list" where
  "searchCalls G randomIndex level s
     = snd (snd (computeBestMove (recording G) randomIndex level (s, [])))"

definition effectiveDepth :: "'s Game \<Rightarrow> string \<Rightarrow> 's \<Rightarrow> nat" where
  "effectiveDepth G level s =
     (let depth = depthForLevel level; legalMoves = getLegalMoves G s
      in if length legalMoves > 60 \<and> depth > 3 then 3 else depth)"

text \<open>
  A game that never ends: no position is game over, every position has a legal move,
  and the engine accepts every move. In such a game nothing but the depth limit stops
  the search from going deeper.
\<close>

definition never_ends :: "'s Game \<Rightarrow> bool" where
  "never_ends G =
     (\<forall>s. \<not> game_isGameOver G s \<and> game_getLegalMoves G s \<noteq> []
          \<and> (\<forall>from to promotion. fst (game_move G s from to promotion) \<noteq> None))"

text \<open>
  A small concrete game for exercising the search: a state is the stack of positions
  reached so far, a position is a number, and from position \<open>n < 2\<close> the side to move
  may step from square \<open>a1\<close> to \<open>a2\<close> (reaching \<open>n + 1\<close>) or capture on \<open>b2\<close>
  (reaching \<open>n + 2\<close>). \<open>move\<close> pushes the new position, \<open>undo\<close> pops it.
\<close>

definition stackPiece :: "nat \<Rightarrow> Piece" where
  "stackPiece n = \<lparr>piece_type = ''pawn'', piece_color = (if even n then White else Black)\<rparr>"

definition stackMoves :: "nat \<Rightarrow> Move list" where
  "stackMoves n =
     (if n < 2 then
        [\<lparr>move_from = ''a1'', move_to = ''a2'', move_piece = stackPiece n,
          move_captured = None, move_promotion = None\<rparr>,
         \<lparr>move_from = ''a1'', move_to = ''b2'', move_piece = stackPiece n,
          move_captured = Some (stackPiece (Suc n)), move_promotion = None\<rparr>]
      else [])"

definition stackTop :: "nat list \<Rightarrow> nat" where
  "stackTop st = (case st of [] \<Rightarrow> 0 | n # _ \<Rightarrow> n)"

definition stackGame :: "(nat list) Game" where
  "stackGame =
     \<lparr>game_move = (\<lambda>st from to promotion.
         case filter (\<lambda>m. move_from m = from \<and> move_to m = to) (stackMoves (stackTop st)) of
           [] \<Rightarrow> (None, st)
         | m # _ \<Rightarrow> (Some m, (stackTop st + (if to = ''a2'' then 1 else 2)) # st)),
      game_undo = (\<lambda>st. case st of [] \<Rightarrow> (None, []) | n # rest \<Rightarrow> (None, rest)),
      game_getLegalMoves = (\<lambda>st. stackMoves (stackTop st)),
      game_getFen = (\<lambda>st. replicate (stackTop st) CHR ''p''),
      game_getStatus = (\<lambda>st. if stackTop st < 2 then ''active'' else ''checkmate''),
      game_getTurn = (\<lambda>st. if even (stackTop st) then White else Black),
      game_getBoard = (\<lambda>st. [[Some (stackPiece 0), None], replicate (stackTop st) (Some (stackPiece 1))]),
      game_isGameOver = (\<lambda>st. \<not> stackTop st < 2)\<rparr>"

text \<open>A variant of it whose game has ended in a draw.\<close>

definition drawnGame :: "(nat list) Game" where
  "drawnGame = stackGame\<lparr>game_getStatus := (\<lambda>st. ''stalemate''), game_isGameOver := (\<lambda>st. True)\<rparr>"

text \<open>
  A game that never ends, with any number \<open>w\<close> of legal moves in every position: the
  state counts the plies played, every move is accepted and adds one, \<open>undo\<close> takes one
  off.
\<close>

definition stepMove :: Move where
  "stepMove = \<lparr>move_from = ''a1'', move_to = ''a2'',
                move_piece = \<lparr>piece_type = ''rook'', piece_color = White\<rparr>,
                move_captured = None, move_promotion = None\<rparr>"

definition endlessGame :: "nat \<Rightarrow> nat Game" where
  "endlessGame w =
     \<lparr>game_move = (\<lambda>n from to promotion. (Some stepMove, Suc n)),
      game_undo = (\<lambda>n. (Some stepMove, n - 1)),
      game_getLegalMoves = (\<lambda>n. replicate w stepMove),
      game_getFen = (\<lambda>n. replicate n CHR ''r''),
      game_getStatus = (\<lambda>n. ''active''),
      game_getTurn = (\<lambda>n. if even n then White else Black),
      game_getBoard = (\<lambda>n. [[Some \<lparr>piece_type = ''rook'', piece_color = White\<rparr>]]),
      game_isGameOver = (\<lambda>n. False)\<rparr>"

text \<open>Two values for the random index: always the first entry, always the second.\<close>

definition firstIndex :: "nat \<Rightarrow> int" where
  "firstIndex n = 0"

definition secondIndex :: "nat \<Rightarrow> int" where
  "secondIndex n = 1"

text \<open>
  The material balance in the words of the specification: the sum over all pieces on the
  board of the piece's value, positive for the maximizing colour and negative for the
  other.
\<close>

definition materialSum :: "Piece option list list \<Rightarrow> Color \<Rightarrow> int" where
  "materialSum board maximizingColor =
     (\<Sum>cell \<leftarrow> concat board.
        case cell of
          None \<Rightarrow> 0
        | Some piece \<Rightarrow>
            (if piece_color piece = maximizingColor then pieceValue piece else - pieceValue piece))"

section \<open>JavaScript values met by the provider layer\<close>

text \<open>
  A backend answers with JSON; the adapters read it as \<open>Record<string, unknown>\<close> and
  cast fields without checking them, so every field may hold any JSON value, and a
  missing field reads as \<open>undefined\<close>. An object is the list of its own properties (a
  repeated key stands for its first entry). Numbers are the integral ones that
  JavaScript prints in plain decimal digits (magnitude below \<open>10^21\<close>).
\<close>

datatype jsval =
    JUndefined
  | JNull
  | JBool bool
  | JNum int
  | JStr string
  | JArr "jsval list"
  | JObj "(string \<times> jsval) list"

text \<open>A value a rejected \<open>fetch\<close> throws: an \<open>Error\<close> instance with its message, or
  something else.\<close>

datatype thrown = ErrorInstance string | OtherValue

text \<open>What the provider layer can throw or reject with: a \<open>TypeError\<close> of the
  language, the \<open>SyntaxError\<close> of parsing a body that is not JSON, the \<open>ApiError\<close> of
  RemoteProvider.ts (status, code, message), a plain \<open>Error\<close> with its message, or
  whatever \<open>fetch\<close> rejected with.\<close>

datatype error =
    TypeError
  | SyntaxError
  | ApiError nat string string
  | PlainError string
  | FetchRejected thrown

definition andThen :: "error + 'a \<Rightarrow> ('a \<Rightarrow> error + 'b) \<Rightarrow> error + 'b" where
  "andThen m f = (case m of Inl e \<Rightarrow> Inl e | Inr x \<Rightarrow> f x)"

text \<open>
  What a call gives its caller: an exception thrown at the call itself, or a promise,
  which is rejected or resolved. A function declared \<open>async\<close> never throws at the call:
  whatever its body throws, before or after its first \<open>await\<close>, rejects the promise it
  returns. \<open>await\<close> turns a rejected promise back into a throw inside the awaiting body.
\<close>

datatype 'a outcome = ThrownSynchronously error | RejectedPromise error | ResolvedPromise 'a

definition asyncFunction :: "error + 'a \<Rightarrow> 'a outcome" where
  "asyncFunction body = (case body of Inl e \<Rightarrow> RejectedPromise e | Inr v \<Rightarrow> ResolvedPromise v)"

definition awaited :: "'a outcome \<Rightarrow> error + 'a" where
  "awaited p =
     (case p of
        ThrownSynchronously e \<Rightarrow> Inl e
      | RejectedPromise e \<Rightarrow> Inl e
      | ResolvedPromise v \<Rightarrow> Inr v)"

fun traverse :: "('a \<Rightarrow> error + 'b) \<Rightarrow> 'a list \<Rightarrow> error + 'b list" where
  "traverse f [] = Inr []"
| "traverse f (x # xs) =
     andThen (f x) (\<lambda>y. andThen (traverse f xs) (\<lambda>ys. Inr (y # ys)))"

lemma traverse_cong [fundef_cong]:
  "xs = ys \<Longrightarrow> (\<And>x. x \<in> set ys \<Longrightarrow> f x = g x) \<Longrightarrow> traverse f xs = traverse g ys"
  by (induction ys arbitrary: xs) (auto simp: andThen_def)

text \<open>Truthiness, as \<open>Boolean(v)\<close>, \<open>!v\<close> and the conditional operator use it.\<close>

fun js_truthy :: "jsval \<Rightarrow> bool" where
  "js_truthy JUndefined = False"
| "js_truthy JNull = False"
| "js_truthy (JBool b) = b"
| "js_truthy (JNum n) = (n \<noteq> 0)"
| "js_truthy (JStr s) = (s \<noteq> [])"
| "js_truthy (JArr xs) = True"
| "js_truthy (JObj kvs) = True"

definition js_nullish :: "jsval \<Rightarrow> bool" where
  "js_nullish v = (v = JUndefined \<or> v = JNull)"

text \<open>\<open>a ?? b\<close>\<close>

definition js_coalesce :: "jsval \<Rightarrow> jsval \<Rightarrow> jsval" where
  "js_coalesce a b = (if js_nullish a then b else a)"

text \<open>\<open>typeof v === 'object'\<close> (true of null as well).\<close>

fun js_typeof_object :: "jsval \<Rightarrow> bool" where
  "js_typeof_object JNull = True"
| "js_typeof_object (JArr xs) = True"
| "js_typeof_object (JObj kvs) = True"
| "js_typeof_object _ = False"

text \<open>
  \<open>v.key\<close> for a receiver that is neither null nor undefined, and for the property names
  the provider layer reads by name (\<open>id\<close>, \<open>fen\<close>, \<open>status\<close>, \<open>from\<close>, ...): none of them
  is defined by a built-in prototype, so the read gives the object's own property or
  \<open>undefined\<close>, and \<open>undefined\<close> on arrays and primitives.
\<close>

fun field :: "jsval \<Rightarrow> string \<Rightarrow> jsval" where
  "field (JObj kvs) key = (case map_of kvs key of Some v \<Rightarrow> v | None \<Rightarrow> JUndefined)"
| "field _ key = JUndefined"

text \<open>\<open>v?.key\<close>\<close>

definition field_opt :: "jsval \<Rightarrow> string \<Rightarrow> jsval" where
  "field_opt v key = (if js_nullish v then JUndefined else field v key)"

fun string_of_nat :: "nat \<Rightarrow> string" where
  "string_of_nat n =
     (if n < 10 then [''0123456789'' ! n]
      else string_of_nat (n div 10) @ [''0123456789'' ! (n mod 10)])"

declare string_of_nat.simps [simp del]

definition string_of_int :: "int \<Rightarrow> string" where
  "string_of_int i = (if i < 0 then CHR ''-'' # string_of_nat (nat (- i)) else string_of_nat (nat i))"

fun join_comma :: "string list \<Rightarrow> string" where
  "join_comma [] = []"
| "join_comma [s] = s"
| "join_comma (s # t # rest) = s @ '','' @ join_comma (t # rest)"

text \<open>
  \<open>String(v)\<close>, which is also how a value used as a property key becomes a string. A
  plain object prints as \<open>[object Object]\<close>; one with an own property \<open>toString\<close> (which
  JSON cannot make callable) has no primitive value, and the conversion throws. An array
  joins its elements with commas, printing null and undefined as the empty string.
\<close>

fun js_String :: "jsval \<Rightarrow> error + string" where
  "js_String JUndefined = Inr ''undefined''"
| "js_String JNull = Inr ''null''"
| "js_String (JBool b) = Inr (if b then ''true'' else ''false'')"
| "js_String (JNum n) = Inr (string_of_int n)"
| "js_String (JStr s) = Inr s"
| "js_String (JArr xs) =
     andThen (traverse (\<lambda>x. if js_nullish x then Inr [] else js_String x) xs)
       (\<lambda>parts. Inr (join_comma parts))"
| "js_String (JObj kvs) =
     (if ''toString'' \<in> set (map fst kvs) then Inl TypeError else Inr ''[object Object]'')"

section \<open>Response adapters (providers/adapters.ts)\<close>

text \<open>
  The normalised types of providers/types.ts, as the values the adapters really build:
  TypeScript's casts check nothing at run time, so a field declared as a string union
  (\<open>PlayerColor\<close>, the piece type) holds a string or whatever the backend sent. A game
  status is the string found in the adapter's table, or, when the looked-up key names a
  member every object inherits from \<open>Object.prototype\<close>, that member.
\<close>

datatype statusval = StatusStr string | InheritedMember string

record NormPiece =
  np_type :: jsval
  np_color :: string

record NormMove =
  nm_from :: string
  nm_to :: string
  nm_san :: jsval
  nm_piece :: "NormPiece option"
  nm_captured :: "NormPiece option"
  nm_promotion :: jsval

record NormGameState =
  ng_id :: string
  ng_fen :: string
  ng_turn :: string
  ng_status :: statusval
  ng_check :: bool
  ng_moveCount :: nat
  ng_moveHistory :: "NormMove list"
  ng_board :: "NormPiece option list list option"
  ng_result :: string
  ng_gameOver :: bool

text \<open>\<open>assertColor(c)\<close>\<close>

definition assertColor :: "jsval \<Rightarrow> string" where
  "assertColor c =
     (if c = JStr ''white'' \<or> c = JStr ''black'' then (case c of JStr s \<Rightarrow> s | _ \<Rightarrow> ''white'')
      else if c = JStr ''w'' then ''white''
      else if c = JStr ''b'' then ''black''
      else ''white'')"

text \<open>\<open>[...].includes(v)\<close> for an array of string literals.\<close>

definition js_includes :: "string list \<Rightarrow> jsval \<Rightarrow> bool" where
  "js_includes xs v = (case v of JStr s \<Rightarrow> s \<in> set xs | _ \<Rightarrow> False)"

text \<open>The names every object literal inherits from \<open>Object.prototype\<close>; each is bound to
  a function or an object, never to null or undefined.\<close>

definition objectPrototypeKeys :: "string list" where
  "objectPrototypeKeys =
     [''constructor'', ''__proto__'', ''hasOwnProperty'', ''isPrototypeOf'',
      ''propertyIsEnumerable'', ''toLocaleString'', ''toString'', ''valueOf'',
      ''__defineGetter__'', ''__defineSetter__'', ''__lookupGetter__'', ''__lookupSetter__'']"

text \<open>
  \<open>map[s] ?? 'active'\<close> for a status table written as an object literal: the key is \<open>s\<close>
  converted to a string; an own entry wins, then an inherited member, and only a key
  that finds nothing falls back to \<open>'active'\<close>.
\<close>

definition lookupStatus :: "(string \<times> string) list \<Rightarrow> jsval \<Rightarrow> error + statusval" where
  "lookupStatus table s =
     andThen (js_String s) (\<lambda>key.
       case map_of table key of
         Some v \<Rightarrow> Inr (StatusStr v)
       | None \<Rightarrow>
           if key \<in> set objectPrototypeKeys then Inr (InheritedMember key)
           else Inr (StatusStr ''active''))"

subsection \<open>rust-chess\<close>

definition rustStatusMap :: "(string \<times> string) list" where
  "rustStatusMap =
     [(''active'', ''active''), (''check'', ''check''), (''checkmate'', ''checkmate''),
      (''stalemate'', ''stalemate''), (''draw'', ''draw''),
      (''insufficient_material'', ''insufficient_material''),
      (''threefold_repetition'', ''threefold_repetition''),
      (''fifty_move_rule'', ''fifty_move_rule'')]"

definition rustNormStatus :: "jsval \<Rightarrow> error + statusval" where
  "rustNormStatus s = lookupStatus rustStatusMap s"

definition rustDeriveResult :: "jsval \<Rightarrow> jsval \<Rightarrow> string" where
  "rustDeriveResult status currentPlayer =
     (if status = JStr ''checkmate'' then (if currentPlayer = JStr ''white'' then ''0-1'' else ''1-0'')
      else if js_includes [''stalemate'', ''draw'', ''insufficient_material'',
                           ''threefold_repetition'', ''fifty_move_rule''] status
        then ''1/2-1/2''
      else ''*'')"

definition rustPieceMap :: "(string \<times> string) list" where
  "rustPieceMap =
     [(''P'', ''pawn''), (''N'', ''knight''), (''B'', ''bishop''), (''R'', ''rook''),
      (''Q'', ''queen''), (''K'', ''king''),
      (''p'', ''pawn''), (''n'', ''knight''), (''b'', ''bishop''), (''r'', ''rook''),
      (''q'', ''queen''), (''k'', ''king'')]"

text \<open>\<open>s.toUpperCase()\<close> on ASCII letters.\<close>

definition toUpperCase :: "string \<Rightarrow> string" where
  "toUpperCase s =
     map (\<lambda>c. let n = (of_char c :: nat) in if 97 \<le> n \<and> n \<le> 122 then char_of (n - 32) else c) s"

text \<open>\<open>rustNormPiece\<close>: a \<open>{type, color}\<close> object (an array counts as an object), or a
  one-letter code; everything else is undefined.\<close>

definition rustNormPiece :: "jsval \<Rightarrow> NormPiece option" where
  "rustNormPiece raw =
     (if \<not> js_truthy raw then None
      else if js_typeof_object raw \<and> raw \<noteq> JNull
        then Some \<lparr>np_type = field raw ''type'', np_color = assertColor (field raw ''color'')\<rparr>
      else (case raw of
              JStr s \<Rightarrow>
                if length s = 1 then
                  (case map_of rustPieceMap s of
                     Some t \<Rightarrow>
                       Some \<lparr>np_type = JStr t,
                             np_color = (if s = toUpperCase s then ''white'' else ''black'')\<rparr>
                   | None \<Rightarrow> None)
                else None
            | _ \<Rightarrow> None))"

text \<open>\<open>rustNormMove\<close>: reading a field of a null or undefined entry throws.\<close>

definition rustNormMove :: "jsval \<Rightarrow> error + NormMove" where
  "rustNormMove raw =
     (if js_nullish raw then Inl TypeError
      else
        andThen (js_String (js_coalesce (field raw ''from'') (JStr ''''))) (\<lambda>from.
        andThen (js_String (js_coalesce (field raw ''to'') (JStr ''''))) (\<lambda>to.
          Inr \<lparr>nm_from = from, nm_to = to, nm_san = field raw ''san'',
               nm_piece = (if js_truthy (field raw ''piece'')
                           then rustNormPiece (field raw ''piece'') else None),
               nm_captured = (if js_truthy (field raw ''captured'')
                              then rustNormPiece (field raw ''captured'') else None),
               nm_promotion = field raw ''promotion''\<rparr>)))"

text \<open>\<open>xs.map(f)\<close> on a value cast to an array: anything but an array has no callable
  \<open>map\<close>, and the call throws.\<close>

definition js_array_map :: "(jsval \<Rightarrow> error + 'a) \<Rightarrow> jsval \<Rightarrow> error + 'a list" where
  "js_array_map f v = (case v of JArr xs \<Rightarrow> traverse f xs | _ \<Rightarrow> Inl TypeError)"

definition rustNormBoard :: "jsval \<Rightarrow> error + NormPiece option list list option" where
  "rustNormBoard raw =
     (case raw of
        JArr rows \<Rightarrow>
          andThen
            (traverse
               (js_array_map (\<lambda>cell. Inr (if js_truthy cell then rustNormPiece cell else None)))
               rows)
            (\<lambda>board. Inr (Some board))
      | _ \<Rightarrow> Inr None)"

text \<open>
  \<open>rustNormGame\<close>. Reading a field of a null or undefined response throws. The field
  initialisers run in order and any of them may throw; \<open>history.length\<close> is read before
  \<open>history.map\<close>, but a state is only built when \<open>history\<close> is an array, and then the
  mapped list has its length.
\<close>

definition rustNormGame :: "jsval \<Rightarrow> error + NormGameState" where
  "rustNormGame raw =
     (if js_nullish raw then Inl TypeError
      else
        (let history = js_coalesce (field raw ''moveHistory'') (JArr []) in
         andThen (js_String (field raw ''id'')) (\<lambda>id.
         andThen (js_String (js_coalesce (field raw ''fen'') (JStr ''''))) (\<lambda>fen.
         andThen (rustNormStatus (field raw ''status'')) (\<lambda>status.
         andThen (js_array_map rustNormMove history) (\<lambda>moveHistory.
         andThen (rustNormBoard (field raw ''board'')) (\<lambda>board.
           Inr \<lparr>ng_id = id, ng_fen = fen,
                ng_turn = assertColor (field raw ''currentPlayer''),
                ng_status = status,
                ng_check = js_truthy (field raw ''check''),
                ng_moveCount = length moveHistory,
                ng_moveHistory = moveHistory,
                ng_board = board,
                ng_result = rustDeriveResult (field raw ''status'') (field raw ''currentPlayer''),
                ng_gameOver = js_includes [''checkmate'', ''stalemate'', ''draw'',
                                 ''insufficient_material'', ''threefold_repetition'',
                                 ''fifty_move_rule''] (field raw ''status'')\<rparr>)))))))"

subsection \<open>go-chess\<close>

definition goStatusMap :: "(string \<times> string) list" where
  "goStatusMap =
     [(''in_progress'', ''active''), (''check'', ''check''), (''white_wins'', ''checkmate''),
      (''black_wins'', ''checkmate''), (''stalemate'', ''stalemate''), (''draw'', ''draw''),
      (''insufficient_material'', ''insufficient_material''),
      (''threefold_repetition'', ''threefold_repetition''),
      (''fifty_move_rule'', ''fifty_move_rule'')]"

definition goNormStatus :: "jsval \<Rightarrow> error + statusval" where
  "goNormStatus s = lookupStatus goStatusMap s"

definition goDeriveResult :: "jsval \<Rightarrow> string" where
  "goDeriveResult status =
     (if status = JStr ''white_wins'' then ''1-0''
      else if status = JStr ''black_wins'' then ''0-1''
      else if js_includes [''stalemate'', ''draw'', ''insufficient_material'',
                           ''threefold_repetition'', ''fifty_move_rule''] status
        then ''1/2-1/2''
      else ''*'')"

definition goNormPiece :: "jsval \<Rightarrow> NormPiece option" where
  "goNormPiece raw =
     (if \<not> js_truthy raw then None
      else if js_typeof_object raw \<and> raw \<noteq> JNull
        then Some \<lparr>np_type = field raw ''type'', np_color = assertColor (field raw ''color'')\<rparr>
      else None)"

definition goNormMove :: "jsval \<Rightarrow> error + NormMove" where
  "goNormMove raw =
     (if js_nullish raw then Inl TypeError
      else
        andThen (js_String (js_coalesce (field raw ''from'') (JStr ''''))) (\<lambda>from.
        andThen (js_String (js_coalesce (field raw ''to'') (JStr ''''))) (\<lambda>to.
          Inr \<lparr>nm_from = from, nm_to = to,
               nm_san = js_coalesce (field raw ''notation'') JUndefined,
               nm_piece = (if js_truthy (field raw ''piece'')
                           then goNormPiece (field raw ''piece'') else None),
               nm_captured = (if js_truthy (field raw ''captured'')
                              then goNormPiece (field raw ''captured'') else None),
               nm_promotion = field raw ''promotion''\<rparr>)))"

definition goNormGame :: "jsval \<Rightarrow> error + NormGameState" where
  "goNormGame raw =
     (if js_nullish raw then Inl TypeError
      else
        (let history = js_coalesce (field raw ''move_history'') (JArr []) in
         andThen (js_String (field raw ''id'')) (\<lambda>id.
         andThen (js_String (js_coalesce (field raw ''fen'') (JStr ''''))) (\<lambda>fen.
         andThen (goNormStatus (field raw ''status'')) (\<lambda>status.
         andThen (js_array_map goNormMove history) (\<lambda>moveHistory.
           Inr \<lparr>ng_id = id, ng_fen = fen,
                ng_turn = assertColor (field raw ''active_color''),
                ng_status = status,
                ng_check = (field raw ''status'' = JStr ''check''),
                ng_moveCount = length moveHistory,
                ng_moveHistory = moveHistory,
                ng_board = None,
                ng_result = goDeriveResult (field raw ''status''),
                ng_gameOver = js_includes [''white_wins'', ''black_wins'', ''stalemate'', ''draw'',
                                 ''insufficient_material'', ''threefold_repetition'',
                                 ''fifty_move_rule''] (field raw ''status'')\<rparr>))))))"

subsection \<open>js-chess\<close>

definition jsDeriveResult :: "jsval \<Rightarrow> string" where
  "jsDeriveResult raw =
     (if js_truthy (field raw ''checkmate'')
        then (if field raw ''winner'' = JStr ''white'' then ''1-0'' else ''0-1'')
      else if js_truthy (field raw ''gameOver'') then ''1/2-1/2''
      else ''*'')"

definition jsNormPiece :: "jsval \<Rightarrow> NormPiece option" where
  "jsNormPiece raw =
     (if \<not> js_truthy raw then None
      else if js_typeof_object raw \<and> raw \<noteq> JNull
        then Some \<lparr>np_type = field raw ''type'', np_color = assertColor (field raw ''color'')\<rparr>
      else None)"

definition jsNormMove :: "jsval \<Rightarrow> error + NormMove" where
  "jsNormMove raw =
     (if js_nullish raw then Inl TypeError
      else
        andThen (js_String (js_coalesce (field raw ''from'') (JStr ''''))) (\<lambda>from.
        andThen (js_String (js_coalesce (field raw ''to'') (JStr ''''))) (\<lambda>to.
          Inr \<lparr>nm_from = from, nm_to = to, nm_san = field raw ''san'',
               nm_piece = (if js_truthy (field raw ''piece'')
                           then jsNormPiece (field raw ''piece'') else None),
               nm_captured = (if js_truthy (field raw ''capturedPiece'')
                              then jsNormPiece (field raw ''capturedPiece'') else None),
               nm_promotion = field raw ''promotion''\<rparr>)))"

definition jsNormGame :: "jsval \<Rightarrow> error + NormGameState" where
  "jsNormGame raw =
     (if js_nullish raw then Inl TypeError
      else
        (let history = js_coalesce (field raw ''moveHistory'') (JArr []);
             gameOver = js_truthy (field raw ''gameOver'');
             checkmate = js_truthy (field raw ''checkmate'');
             stalemate = js_truthy (field raw ''stalemate'');
             check = js_truthy (field raw ''check'');
             status = (if checkmate then ''checkmate''
                       else if stalemate then ''stalemate''
                       else if js_truthy (field raw ''inThreefoldRepetition'')
                         then ''threefold_repetition''
                       else if js_truthy (field raw ''inFiftyMoveRule'') then ''fifty_move_rule''
                       else if gameOver then ''draw''
                       else if check then ''check''
                       else ''active'')
         in
         andThen (js_String (field raw ''id'')) (\<lambda>id.
         andThen (js_String (js_coalesce (field raw ''fen'') (JStr ''''))) (\<lambda>fen.
         andThen (js_array_map jsNormMove history) (\<lambda>moveHistory.
           Inr \<lparr>ng_id = id, ng_fen = fen,
                ng_turn = assertColor (field raw ''turn''),
                ng_status = StatusStr status,
                ng_check = check,
                ng_moveCount = length moveHistory,
                ng_moveHistory = moveHistory,
                ng_board = None,
                ng_result = jsDeriveResult raw,
                ng_gameOver = gameOver\<rparr>)))))"

section \<open>The remote provider (providers/RemoteProvider.ts)\<close>

datatype BackendId = Local | Rust | Go | Js

definition backendIdString :: "BackendId \<Rightarrow> string" where
  "backendIdString b = (case b of Local \<Rightarrow> ''local'' | Rust \<Rightarrow> ''rust'' | Go \<Rightarrow> ''go'' | Js \<Rightarrow> ''js'')"

record ProviderCapabilities =
  cap_undo :: bool
  cap_ai :: bool
  cap_hint :: bool
  cap_analysis :: bool
  cap_chat :: bool
  cap_websocket :: bool
  cap_pgn :: bool
  cap_fenLoad :: bool

definition rustCapabilities :: ProviderCapabilities where
  "rustCapabilities =
     \<lparr>cap_undo = True, cap_ai = True, cap_hint = True, cap_analysis = True,
      cap_chat = True, cap_websocket = True, cap_pgn = True, cap_fenLoad = True\<rparr>"

definition goCapabilities :: ProviderCapabilities where
  "goCapabilities =
     \<lparr>cap_undo = False, cap_ai = True, cap_hint = True, cap_analysis = True,
      cap_chat = True, cap_websocket = True, cap_pgn = True, cap_fenLoad = True\<rparr>"

definition jsCapabilities :: ProviderCapabilities where
  "jsCapabilities =
     \<lparr>cap_undo = True, cap_ai = True, cap_hint = True, cap_analysis = True,
      cap_chat = False, cap_websocket = False, cap_pgn = True, cap_fenLoad = True\<rparr>"

definition REMOTE_CAPS :: "BackendId \<Rightarrow> ProviderCapabilities option" where
  "REMOTE_CAPS b =
     (case b of
        Local \<Rightarrow> None
      | Rust \<Rightarrow> Some rustCapabilities
      | Go \<Rightarrow> Some goCapabilities
      | Js \<Rightarrow> Some jsCapabilities)"

text \<open>The adapter registry of adapters.ts, with the entries the modelled methods use.\<close>

record BackendAdapter =
  apiPrefix :: string
  normGame :: "jsval \<Rightarrow> error + NormGameState"
  aiDifficultyField :: string

definition ADAPTERS :: "BackendId \<Rightarrow> BackendAdapter option" where
  "ADAPTERS b =
     (case b of
        Local \<Rightarrow> None
      | Rust \<Rightarrow> Some \<lparr>apiPrefix = ''/api'', normGame = rustNormGame,
                       aiDifficultyField = ''difficulty''\<rparr>
      | Go \<Rightarrow> Some \<lparr>apiPrefix = ''/api'', normGame = goNormGame, aiDifficultyField = ''level''\<rparr>
      | Js \<Rightarrow> Some \<lparr>apiPrefix = ''/api/v1'', normGame = jsNormGame,
                     aiDifficultyField = ''difficulty''\<rparr>)"

text \<open>
  The network. A request is what \<open>fetch\<close> is called with; a response carries what the
  code reads of it: status and status text, the \<open>content-type\<close> header, the body as
  text and, when the body is JSON, its value. \<open>fetch\<close> itself is a parameter: a function
  from the request to a response or to the value it rejects with. Every call of \<open>fetch\<close>
  is appended to a call list, so that the calls a method makes can be counted.
\<close>

record HttpRequest =
  req_url :: string
  req_method :: "string option"
  req_headers :: "(string \<times> string) list"
  req_body :: "string option"
  req_timeout :: "nat option"

record HttpResponse =
  res_status :: nat
  res_statusText :: string
  res_contentType :: "string option"
  res_text :: string
  res_json :: "jsval option"

type_synonym network = "HttpRequest \<Rightarrow> thrown + HttpResponse"

text \<open>\<open>Response.ok\<close>: the status is in the range 200 to 299.\<close>

definition res_ok :: "HttpResponse \<Rightarrow> bool" where
  "res_ok res = (200 \<le> res_status res \<and> res_status res \<le> 299)"

record RequestInit =
  init_method :: "string option"
  init_headers :: "(string \<times> string) list"
  init_body :: "string option"

text \<open>
  \<open>request(url, init)\<close>, an \<open>async\<close> function. The headers of \<open>init\<close> are spread after the
  default \<open>Content-Type\<close> and so take precedence (they come first in the list). A body
  that is not JSON makes \<open>res.json()\<close> reject with a \<open>SyntaxError\<close>. In the error branch
  the conditional operator binds weaker than \<open>??\<close>: the fallbacks \<open>'UNKNOWN'\<close> and
  \<open>res.statusText\<close> belong to the branch where \<open>error\<close> is not an object.
\<close>

definition fetchArguments :: "string \<Rightarrow> RequestInit option \<Rightarrow> HttpRequest" where
  "fetchArguments url init =
     \<lparr>req_url = url,
      req_method = (case init of None \<Rightarrow> None | Some i \<Rightarrow> init_method i),
      req_headers = (case init of None \<Rightarrow> [] | Some i \<Rightarrow> init_headers i)
                      @ [(''Content-Type'', ''application/json'')],
      req_body = (case init of None \<Rightarrow> None | Some i \<Rightarrow> init_body i),
      req_timeout = None\<rparr>"

definition request ::
  "network \<Rightarrow> string \<Rightarrow> RequestInit option \<Rightarrow> HttpRequest list
     \<Rightarrow> jsval outcome \<times> HttpRequest list" where
  "request fetch url init calls =
     (let req = fetchArguments url init;
          calls' = calls @ [req]
      in (asyncFunction
            (case fetch req of
               Inl t \<Rightarrow> Inl (FetchRejected t)
             | Inr res \<Rightarrow>
                 (let ct = (case res_contentType res of None \<Rightarrow> '''' | Some c \<Rightarrow> c) in
                  if sublist ''text/plain'' ct then
                    (if \<not> res_ok res
                     then Inl (ApiError (res_status res) ''HTTP_ERROR'' (res_text res))
                     else Inr (JStr (res_text res)))
                  else
                    (case res_json res of
                       None \<Rightarrow> Inl SyntaxError
                     | Some body \<Rightarrow>
                         if \<not> res_ok res then
                           (let errObj = field_opt body ''error'';
                                code = (if js_typeof_object errObj then field_opt errObj ''code''
                                        else js_coalesce errObj (JStr ''UNKNOWN''));
                                msg = (if js_typeof_object errObj then field_opt errObj ''message''
                                       else js_coalesce (field_opt body ''message'')
                                              (JStr (res_statusText res)))
                            in andThen (js_String code) (\<lambda>c.
                               andThen (js_String msg) (\<lambda>m.
                                 Inl (ApiError (res_status res) c m))))
                         else Inr body))),
          calls'))"

record RemoteProvider =
  rp_backendId :: BackendId
  rp_capabilities :: ProviderCapabilities
  rp_baseUrl :: string
  rp_adapter :: "BackendAdapter option"

text \<open>\<open>baseUrl.replace(/\/+$/, '')\<close>\<close>

definition stripTrailingSlashes :: "string \<Rightarrow> string" where
  "stripTrailingSlashes s = rev (dropWhile (\<lambda>c. c = CHR ''/'') (rev s))"

text \<open>The constructor. \<open>REMOTE_CAPS[backendId] ?? REMOTE_CAPS.rust\<close> falls back to the
  rust capabilities.\<close>

definition newRemoteProvider :: "BackendId \<Rightarrow> string \<Rightarrow> error + RemoteProvider" where
  "newRemoteProvider backendId baseUrl =
     (if backendId = Local then Inl (PlainError ''Use LocalProvider for local backend'')
      else Inr \<lparr>rp_backendId = backendId,
                rp_capabilities = (case REMOTE_CAPS backendId of
                                     Some caps \<Rightarrow> caps
                                   | None \<Rightarrow> rustCapabilities),
                rp_baseUrl = stripTrailingSlashes baseUrl,
                rp_adapter = ADAPTERS backendId\<rparr>)"

definition url :: "RemoteProvider \<Rightarrow> string \<Rightarrow> error + string" where
  "url p path =
     (case rp_adapter p of
        None \<Rightarrow> Inl TypeError
      | Some a \<Rightarrow> Inr (rp_baseUrl p @ apiPrefix a @ path))"

text \<open>\<open>RemoteProvider.undoMove(gameId)\<close>, an \<open>async\<close> method: the capability test and its
  \<open>throw\<close> stand before the first \<open>await\<close>, inside the body.\<close>

definition undoMove ::
  "network \<Rightarrow> RemoteProvider \<Rightarrow> string \<Rightarrow> HttpRequest list
     \<Rightarrow> NormGameState outcome \<times> HttpRequest list" where
  "undoMove fetch p gameId calls =
     (if \<not> cap_undo (rp_capabilities p) then
        (asyncFunction
           (Inl (PlainError (''Undo is not supported by the '' @ backendIdString (rp_backendId p)
                             @ '' backend''))), calls)
      else
        (case url p (''/games/'' @ gameId @ ''/undo'') of
           Inl e \<Rightarrow> (asyncFunction (Inl e), calls)
         | Inr u \<Rightarrow>
             (case request fetch u
                     (Some \<lparr>init_method = Some ''POST'', init_headers = [], init_body = None\<rparr>) calls of
                (promise, calls') \<Rightarrow>
                  (asyncFunction
                     (case awaited promise of
                        Inl e \<Rightarrow> Inl e
                      | Inr raw \<Rightarrow>
                          (case rp_adapter p of
                             None \<Rightarrow> Inl TypeError
                           | Some a \<Rightarrow> normGame a raw)),
                   calls'))))"

section \<open>Backend selection (the BackendProvider component of BackendContext.tsx)\<close>

record BackendConfig =
  cfg_id :: BackendId
  cfg_label :: string
  cfg_url :: "string option"
  cfg_description :: string

definition BACKEND_PRESETS :: "BackendId \<Rightarrow> BackendConfig" where
  "BACKEND_PRESETS b =
     (case b of
        Local \<Rightarrow> \<lparr>cfg_id = Local, cfg_label = ''Local (Browser)'', cfg_url = None,
                   cfg_description = ''In-browser engine via @rumenx/chess''\<rparr>
      | Rust \<Rightarrow> \<lparr>cfg_id = Rust, cfg_label = ''Rust Engine'', cfg_url = Some ''http://localhost:8082'',
                  cfg_description = ''rust-chess (rumenx-chess) Axum REST API''\<rparr>
      | Go \<Rightarrow> \<lparr>cfg_id = Go, cfg_label = ''Go Engine'', cfg_url = Some ''http://localhost:8080'',
                cfg_description = ''go-chess Gin REST API''\<rparr>
      | Js \<Rightarrow> \<lparr>cfg_id = Js, cfg_label = ''JS Engine'', cfg_url = Some ''http://localhost:8081'',
                cfg_description = ''js-chess / npm-chess Express REST API''\<rparr>)"

text \<open>The component's state: the five \<open>useState\<close> cells. \<open>connected = None\<close> is the
  state "checking" of the connection indicator.\<close>

record BackendState =
  bs_backendId :: BackendId
  bs_urlOverrides :: "BackendId \<Rightarrow> string option"
  bs_connected :: "bool option"
  bs_connectionError :: "string option"
  bs_checking :: bool

text \<open>The initial state, from the persisted (or configured) backend and URL overrides.\<close>

definition initialBackendState :: "BackendId \<Rightarrow> (BackendId \<Rightarrow> string option) \<Rightarrow> BackendState" where
  "initialBackendState backendId urlOverrides =
     \<lparr>bs_backendId = backendId, bs_urlOverrides = urlOverrides,
      bs_connected = (if backendId = Local \<or> backendId = Js then Some True else None),
      bs_connectionError = None, bs_checking = False\<rparr>"

text \<open>The memo \<open>backends\<close>: the presets with the URL overrides applied.\<close>

definition backends :: "BackendState \<Rightarrow> BackendId \<Rightarrow> BackendConfig" where
  "backends st b =
     (case bs_urlOverrides st b of
        None \<Rightarrow> BACKEND_PRESETS b
      | Some u \<Rightarrow> (BACKEND_PRESETS b)\<lparr>cfg_url := Some u\<rparr>)"

text \<open>The provider the component hands out is a \<open>LocalProvider\<close> (providers/LocalProvider.ts,
  freshly constructed) or a \<open>RemoteProvider\<close>.\<close>

datatype ChessProvider = LocalProviderInstance | RemoteProviderInstance RemoteProvider

text \<open>The memo \<open>provider\<close>.\<close>

definition provider :: "BackendState \<Rightarrow> error + ChessProvider" where
  "provider st =
     (let backendId = bs_backendId st in
      if backendId = Local \<or> backendId = Js then Inr LocalProviderInstance
      else
        (let cfg = backends st backendId;
             u = (case cfg_url cfg of
                    Some u \<Rightarrow> u
                  | None \<Rightarrow> (case cfg_url (BACKEND_PRESETS backendId) of
                               Some u \<Rightarrow> u
                             | None \<Rightarrow> ''http://localhost:8083''))
         in andThen (newRemoteProvider backendId u) (\<lambda>p. Inr (RemoteProviderInstance p))))"

text \<open>
  \<open>checkConnection\<close> is an \<open>async\<close> function with one \<open>await\<close>. What stands before the
  \<open>await\<close> runs at the call: for the local and the js backend it sets \<open>connected\<close> and
  returns, with no request; otherwise it sets \<open>checking\<close> and calls \<open>fetch\<close> for
  \<open>{url}/health\<close> with \<open>AbortSignal.timeout(5000)\<close>. The model returns the state, the
  calls of \<open>fetch\<close> and the request left pending, if any.
\<close>

definition checkConnection ::
  "BackendState \<Rightarrow> HttpRequest list \<Rightarrow> BackendState \<times> HttpRequest list \<times> HttpRequest option" where
  "checkConnection st calls =
     (let backendId = bs_backendId st in
      if backendId = Local \<or> backendId = Js then
        (st\<lparr>bs_connected := Some True, bs_connectionError := None\<rparr>, calls, None)
      else
        (let cfg = backends st backendId;
             u = (case cfg_url cfg of
                    Some u \<Rightarrow> u
                  | None \<Rightarrow> (case cfg_url (BACKEND_PRESETS backendId) of
                               Some u \<Rightarrow> u
                             | None \<Rightarrow> ''''));
             req = \<lparr>req_url = u @ ''/health'', req_method = None, req_headers = [],
                    req_body = None, req_timeout = Some 5000\<rparr>
         in (st\<lparr>bs_checking := True\<rparr>, calls @ [req], Some req)))"

text \<open>
  What stands after the \<open>await\<close> runs when the pending request settles, with a response or
  with the value \<open>fetch\<close> rejected with (a timeout included). Its setters act on the state
  the component has at that moment: nothing cancels a pending check, so a
  \<open>switchBackend\<close> or another check may have changed the state in between.
\<close>

definition checkConnection_settled :: "thrown + HttpResponse \<Rightarrow> BackendState \<Rightarrow> BackendState" where
  "checkConnection_settled settled st =
     (case settled of
        Inr res \<Rightarrow>
          if res_ok res then
            st\<lparr>bs_connected := Some True, bs_connectionError := None, bs_checking := False\<rparr>
          else
            st\<lparr>bs_connected := Some False,
               bs_connectionError :=
                 Some (''Health check returned '' @ string_of_nat (res_status res)),
               bs_checking := False\<rparr>
      | Inl err \<Rightarrow>
          st\<lparr>bs_connected := Some False,
             bs_connectionError :=
               Some (case err of
                       ErrorInstance message \<Rightarrow> message
                     | OtherValue \<Rightarrow> ''Cannot reach backend''),
             bs_checking := False\<rparr>)"

text \<open>\<open>switchBackend(id, customUrl)\<close>: the four state updates.\<close>

definition switchBackend :: "BackendState \<Rightarrow> BackendId \<Rightarrow> string option \<Rightarrow> BackendState" where
  "switchBackend st b customUrl =
     st\<lparr>bs_urlOverrides :=
          (case customUrl of
             Some u \<Rightarrow> if u \<noteq> [] \<and> b \<noteq> Local then (bs_urlOverrides st)(b := Some u)
                       else bs_urlOverrides st
           | None \<Rightarrow> bs_urlOverrides st),
        bs_connected := (if b = Local then Some True else None),
        bs_connectionError := None,
        bs_backendId := b\<rparr>"

text \<open>
  The effect \<open>useEffect(() => checkConnection(), [checkConnection])\<close> calls
  \<open>checkConnection\<close> after the first render and after every render in which
  \<open>useCallback\<close> rebuilt it, that is, in which \<open>backendId\<close> or \<open>backends\<close> changed;
  \<open>backends\<close> is rebuilt when \<open>setUrlOverrides\<close> stored a new object. So a
  \<open>switchBackend\<close> is followed by a check exactly when it names another backend or
  carries a URL for a backend other than local.
\<close>

definition checkFollowsSwitch :: "BackendState \<Rightarrow> BackendId \<Rightarrow> string option \<Rightarrow> bool" where
  "checkFollowsSwitch st b customUrl =
     ((case customUrl of Some u \<Rightarrow> u \<noteq> [] \<and> b \<noteq> Local | None \<Rightarrow> False)
      \<or> b \<noteq> bs_backendId st)"

section \<open>Sample responses, networks and states\<close>



definition goInProgressRaw :: jsval where
  "goInProgressRaw =
     JObj [(''id'', JNum 42),
           (''fen'', JStr ''rnbqkbnr/pppppppp/8/8/4P3/8/PPPP1PPP/RNBQKBNR b KQkq e3 0 1''),
           (''active_color'', JStr ''black''), (''status'', JStr ''in_progress''),
           (''move_history'',
              JArr [JObj [(''from'', JStr ''e2''), (''to'', JStr ''e4''), (''notation'', JStr ''e4''),
                          (''piece'', JObj [(''type'', JStr ''pawn''), (''color'', JStr ''white'')])]])]"


definition malformedTurnRaw :: jsval where
  "malformedTurnRaw = JObj [(''id'', JNum 7), (''currentPlayer'', JNum 3), (''active_color'', JNull),
                           (''status'', JStr ''check'')]"


definition unreachableNetwork :: network where
  "unreachableNetwork req = Inl (ErrorInstance ''Failed to fetch'')"

definition noOverrides :: "BackendId \<Rightarrow> string option" where
  "noOverrides b = None"

definition healthyNetwork :: network where
  "healthyNetwork req =
     Inr \<lparr>res_status = 200, res_statusText = ''OK'', res_contentType = Some ''application/json'',
          res_text = ''{}'', res_json = Some (JObj [])\<rparr>"



text \<open>The provider \<open>new RemoteProvider('go', 'http://localhost:8080')\<close>.\<close>

definition goProvider :: RemoteProvider where
  "goProvider =
     \<lparr>rp_backendId = Go, rp_capabilities = goCapabilities,
      rp_baseUrl = ''http://localhost:8080'', rp_adapter = ADAPTERS Go\<rparr>"

text \<open>A network on which the rust backend cannot be reached and every other request is
  answered 200.\<close>

definition rustDownNetwork :: network where
  "rustDownNetwork req =
     (if req_url req = ''http://localhost:8082/health'' then Inl (ErrorInstance ''Failed to fetch'')
      else Inr \<lparr>res_status = 200, res_statusText = ''OK'',
                res_contentType = Some ''application/json'',
                res_text = ''{}'', res_json = Some (JObj [])\<rparr>)"

section \<open>Properties of the search\<close>

lemma symmetric_rejected:
  "make_undo_symmetric G \<Longrightarrow> makeMove G s f t p = (None, s1) \<Longrightarrow> s1 = s"
  unfolding make_undo_symmetric_def makeMove_def
  by (metis (mono_tags, lifting) case_prod_conv option.simps(4))

lemma symmetric_accepted:
  "make_undo_symmetric G \<Longrightarrow> makeMove G s f t p = (Some m, s1) \<Longrightarrow> snd (undo G s1) = s"
  unfolding make_undo_symmetric_def makeMove_def undo_def
  by (metis (mono_tags, lifting) case_prod_conv option.simps(5))

lemma maxLoop_state:
  assumes sym: "make_undo_symmetric G"
    and child: "\<And>a b t. snd (child a b t) = t"
  shows "snd (maxLoop child G ms v a b s) = s"
proof (induction ms arbitrary: v a b s)
  case Nil
  show ?case by simp
next
  case (Cons m ms)
  obtain r s1 where mk: "makeMove G s (move_from m) (move_to m) (move_promotion m) = (r, s1)"
    by (cases "makeMove G s (move_from m) (move_to m) (move_promotion m)")
  show ?case
  proof (cases r)
    case None
    with mk symmetric_rejected[OF sym] have "s1 = s" by blast
    with mk None Cons.IH show ?thesis by simp
  next
    case (Some applied)
    with mk symmetric_accepted[OF sym] have restored: "snd (undo G s1) = s" by blast
    obtain cv s2 where ch: "child a b s1 = (cv, s2)" by (cases "child a b s1")
    with child[of a b s1] have "s2 = s1" by simp
    with mk Some ch restored Cons.IH show ?thesis
      by (simp add: Let_def)
  qed
qed

lemma minLoop_state:
  assumes sym: "make_undo_symmetric G"
    and child: "\<And>a b t. snd (child a b t) = t"
  shows "snd (minLoop child G ms v a b s) = s"
proof (induction ms arbitrary: v a b s)
  case Nil
  show ?case by simp
next
  case (Cons m ms)
  obtain r s1 where mk: "makeMove G s (move_from m) (move_to m) (move_promotion m) = (r, s1)"
    by (cases "makeMove G s (move_from m) (move_to m) (move_promotion m)")
  show ?case
  proof (cases r)
    case None
    with mk symmetric_rejected[OF sym] have "s1 = s" by blast
    with mk None Cons.IH show ?thesis by simp
  next
    case (Some applied)
    with mk symmetric_accepted[OF sym] have restored: "snd (undo G s1) = s" by blast
    obtain cv s2 where ch: "child a b s1 = (cv, s2)" by (cases "child a b s1")
    with child[of a b s1] have "s2 = s1" by simp
    with mk Some ch restored Cons.IH show ?thesis
      by (simp add: Let_def)
  qed
qed

lemma minimax_state:
  assumes sym: "make_undo_symmetric G"
  shows "snd (minimax d G c a b s) = s"
proof (induction d arbitrary: a b s)
  case 0
  show ?case by simp
next
  case (Suc d)
  show ?case
    using maxLoop_state[OF sym, of "minimax d G c"] minLoop_state[OF sym, of "minimax d G c"] Suc.IH
    by (simp add: Let_def)
qed

lemma rootLoop_state:
  assumes sym: "make_undo_symmetric G"
  shows "snd (rootLoop G d c ms best bestScore s) = s"
proof (induction ms arbitrary: best bestScore s)
  case Nil
  show ?case by simp
next
  case (Cons m ms)
  obtain r s1 where mk: "makeMove G s (move_from m) (move_to m) (move_promotion m) = (r, s1)"
    by (cases "makeMove G s (move_from m) (move_to m) (move_promotion m)")
  show ?case
  proof (cases r)
    case None
    with mk symmetric_rejected[OF sym] have "s1 = s" by blast
    with mk None Cons.IH show ?thesis by simp
  next
    case (Some applied)
    with mk symmetric_accepted[OF sym] have restored: "snd (undo G s1) = s" by blast
    obtain sc s2 where ch: "minimax (d - 1) G c NegInf PosInf s1 = (sc, s2)"
      by (cases "minimax (d - 1) G c NegInf PosInf s1")
    with minimax_state[OF sym, of "d - 1" c NegInf PosInf s1] have "s2 = s1" by simp
    with mk Some ch restored Cons.IH show ?thesis
      by (simp add: Let_def)
  qed
qed

lemma pending_append:
  "pending (u @ v) k = (case pending u k of None \<Rightarrow> None | Some k' \<Rightarrow> pending v k')"
  by (induction u k rule: pending.induct) auto

lemma neutral_Nil: "neutral []"
  by (simp add: neutral_def)

lemma neutral_Rejected: "neutral w \<Longrightarrow> neutral (Rejected # w)"
  by (simp add: neutral_def)

lemma neutral_Accepted: "neutral u \<Longrightarrow> neutral w \<Longrightarrow> neutral (Accepted # u @ Undone # w)"
  by (simp add: neutral_def pending_append)


lemma recording_makeMove:
  "makeMove (recording G) (s, calls) f t p
     = (case game_move G s f t p of
          (None, s') \<Rightarrow> (None, (s', calls @ [Rejected]))
        | (Some m, s') \<Rightarrow> (Some m, (s', calls @ [Accepted])))"
  by (simp add: makeMove_def recording_def)

lemma recording_undo:
  "snd (undo (recording G) (s, calls)) = (fst (snd (undo (recording G) (s, calls))), calls @ [Undone])"
  by (simp add: undo_def recording_def split: prod.splits)

lemma maxLoop_calls:
  assumes child: "\<And>a b st. appends_neutral st (snd (child a b st))"
  shows "appends_neutral st (snd (maxLoop child (recording G) ms v a b st))"
proof (induction ms arbitrary: v a b st)
  case Nil
  show ?case by (simp add: appends_neutral_def neutral_Nil)
next
  case (Cons m ms)
  obtain s calls where st: "st = (s, calls)" by (cases st)
  obtain r s1 where mk: "game_move G s (move_from m) (move_to m) (move_promotion m) = (r, s1)"
    by (cases "game_move G s (move_from m) (move_to m) (move_promotion m)")
  show ?case
  proof (cases r)
    case None
    from Cons.IH[where v = v and a = a and b = b and st = "(s1, calls @ [Rejected])"]
    obtain w where "snd (snd (maxLoop child (recording G) ms v a b (s1, calls @ [Rejected])))
        = (calls @ [Rejected]) @ w" "neutral w"
      by (auto simp: appends_neutral_def)
    with st mk None show ?thesis
      by (auto simp: appends_neutral_def recording_makeMove intro: neutral_Rejected)
  next
    case (Some applied)
    obtain cv s2 calls2 where ch: "child a b (s1, calls @ [Accepted]) = (cv, (s2, calls2))"
      by (cases "child a b (s1, calls @ [Accepted])") auto
    from child[where st = "(s1, calls @ [Accepted])" and a = a and b = b] ch
    obtain u where u: "calls2 = (calls @ [Accepted]) @ u" "neutral u"
      by (auto simp: appends_neutral_def)
    obtain s3 where un: "snd (undo (recording G) (s2, calls2)) = (s3, calls2 @ [Undone])"
      using recording_undo[of G s2 calls2] by auto
    let ?v = "score_max v cv" and ?a = "score_max a (score_max v cv)"
    from Cons.IH[where v = ?v and a = ?a and b = b and st = "(s3, calls2 @ [Undone])"]
    obtain w where w: "snd (snd (maxLoop child (recording G) ms ?v ?a b (s3, calls2 @ [Undone])))
        = (calls2 @ [Undone]) @ w" "neutral w"
      by (auto simp: appends_neutral_def)
    show ?thesis
    proof (cases "score_ge ?a b")
      case True
      with st mk Some ch un u show ?thesis
        using neutral_Accepted[OF u(2) neutral_Nil]
        by (auto simp: appends_neutral_def recording_makeMove Let_def)
    next
      case False
      with st mk Some ch un u w show ?thesis
        using neutral_Accepted[OF u(2) w(2)]
        by (auto simp: appends_neutral_def recording_makeMove Let_def)
    qed
  qed
qed

lemma minLoop_calls:
  assumes child: "\<And>a b st. appends_neutral st (snd (child a b st))"
  shows "appends_neutral st (snd (minLoop child (recording G) ms v a b st))"
proof (induction ms arbitrary: v a b st)
  case Nil
  show ?case by (simp add: appends_neutral_def neutral_Nil)
next
  case (Cons m ms)
  obtain s calls where st: "st = (s, calls)" by (cases st)
  obtain r s1 where mk: "game_move G s (move_from m) (move_to m) (move_promotion m) = (r, s1)"
    by (cases "game_move G s (move_from m) (move_to m) (move_promotion m)")
  show ?case
  proof (cases r)
    case None
    from Cons.IH[where v = v and a = a and b = b and st = "(s1, calls @ [Rejected])"]
    obtain w where "snd (snd (minLoop child (recording G) ms v a b (s1, calls @ [Rejected])))
        = (calls @ [Rejected]) @ w" "neutral w"
      by (auto simp: appends_neutral_def)
    with st mk None show ?thesis
      by (auto simp: appends_neutral_def recording_makeMove intro: neutral_Rejected)
  next
    case (Some applied)
    obtain cv s2 calls2 where ch: "child a b (s1, calls @ [Accepted]) = (cv, (s2, calls2))"
      by (cases "child a b (s1, calls @ [Accepted])") auto
    from child[where st = "(s1, calls @ [Accepted])" and a = a and b = b] ch
    obtain u where u: "calls2 = (calls @ [Accepted]) @ u" "neutral u"
      by (auto simp: appends_neutral_def)
    obtain s3 where un: "snd (undo (recording G) (s2, calls2)) = (s3, calls2 @ [Undone])"
      using recording_undo[of G s2 calls2] by auto
    let ?v = "score_min v cv" and ?b = "score_min b (score_min v cv)"
    from Cons.IH[where v = ?v and a = a and b = ?b and st = "(s3, calls2 @ [Undone])"]
    obtain w where w: "snd (snd (minLoop child (recording G) ms ?v a ?b (s3, calls2 @ [Undone])))
        = (calls2 @ [Undone]) @ w" "neutral w"
      by (auto simp: appends_neutral_def)
    show ?thesis
    proof (cases "score_ge a ?b")
      case True
      with st mk Some ch un u show ?thesis
        using neutral_Accepted[OF u(2) neutral_Nil]
        by (auto simp: appends_neutral_def recording_makeMove Let_def)
    next
      case False
      with st mk Some ch un u w show ?thesis
        using neutral_Accepted[OF u(2) w(2)]
        by (auto simp: appends_neutral_def recording_makeMove Let_def)
    qed
  qed
qed

lemma recording_observers:
  "isGameOver (recording G) (s, calls) = isGameOver G s"
  "getLegalMoves (recording G) (s, calls) = getLegalMoves G s"
  "getTurn (recording G) (s, calls) = getTurn G s"
  by (simp_all add: isGameOver_def getLegalMoves_def getTurn_def recording_def)

lemma minimax_calls:
  "appends_neutral st (snd (minimax d (recording G) c a b st))"
proof (induction d arbitrary: a b st)
  case 0
  show ?case by (simp add: appends_neutral_def neutral_Nil)
next
  case (Suc d)
  have same: "appends_neutral st st" by (simp add: appends_neutral_def neutral_Nil)
  show ?case
    using maxLoop_calls[of "minimax d (recording G) c" st G, OF Suc.IH]
      minLoop_calls[of "minimax d (recording G) c" st G, OF Suc.IH] same
    by (simp add: Let_def)
qed

lemma rootLoop_calls:
  "appends_neutral st (snd (rootLoop (recording G) d c ms best bestScore st))"
proof (induction ms arbitrary: best bestScore st)
  case Nil
  show ?case by (simp add: appends_neutral_def neutral_Nil)
next
  case (Cons m ms)
  obtain s calls where st: "st = (s, calls)" by (cases st)
  obtain r s1 where mk: "game_move G s (move_from m) (move_to m) (move_promotion m) = (r, s1)"
    by (cases "game_move G s (move_from m) (move_to m) (move_promotion m)")
  show ?case
  proof (cases r)
    case None
    from Cons.IH[where best = best and bestScore = bestScore and st = "(s1, calls @ [Rejected])"]
    obtain w where "snd (snd (rootLoop (recording G) d c ms best bestScore (s1, calls @ [Rejected])))
        = (calls @ [Rejected]) @ w" "neutral w"
      by (auto simp: appends_neutral_def)
    with st mk None show ?thesis
      by (auto simp: appends_neutral_def recording_makeMove intro: neutral_Rejected)
  next
    case (Some applied)
    obtain sc s2 calls2 where ch:
      "minimax (d - 1) (recording G) c NegInf PosInf (s1, calls @ [Accepted]) = (sc, (s2, calls2))"
      by (cases "minimax (d - 1) (recording G) c NegInf PosInf (s1, calls @ [Accepted])") auto
    from minimax_calls[of "(s1, calls @ [Accepted])" "d - 1" G c NegInf PosInf] ch
    obtain u where u: "calls2 = (calls @ [Accepted]) @ u" "neutral u"
      by (auto simp: appends_neutral_def)
    obtain s3 where un: "snd (undo (recording G) (s2, calls2)) = (s3, calls2 @ [Undone])"
      using recording_undo[of G s2 calls2] by auto
    from Cons.IH[where st = "(s3, calls2 @ [Undone])"]
    have "\<And>best' score'. \<exists>w. snd (snd (rootLoop (recording G) d c ms best' score' (s3, calls2 @ [Undone])))
        = (calls2 @ [Undone]) @ w \<and> neutral w"
      by (auto simp: appends_neutral_def)
    then obtain w1 w2 where
      w1: "snd (snd (rootLoop (recording G) d c ms (Some m) sc (s3, calls2 @ [Undone])))
        = (calls2 @ [Undone]) @ w1" "neutral w1" and
      w2: "snd (snd (rootLoop (recording G) d c ms best bestScore (s3, calls2 @ [Undone])))
        = (calls2 @ [Undone]) @ w2" "neutral w2"
      by metis
    show ?thesis
    proof (cases "score_less bestScore sc")
      case True
      with st mk Some ch un u w1 show ?thesis
        using neutral_Accepted[OF u(2) w1(2)]
        by (auto simp: appends_neutral_def recording_makeMove Let_def)
    next
      case False
      with st mk Some ch un u w2 show ?thesis
        using neutral_Accepted[OF u(2) w2(2)]
        by (auto simp: appends_neutral_def recording_makeMove Let_def)
    qed
  qed
qed

lemma computeBestMove_calls:
  "appends_neutral st (snd (computeBestMove (recording G) randomIndex level st))"
proof -
  have same: "appends_neutral st st" by (simp add: appends_neutral_def neutral_Nil)
  show ?thesis
  proof (cases "depthForLevel level = 0")
    case True
    with same show ?thesis by (simp add: computeBestMove_def Let_def)
  next
    case False
    then show ?thesis
      using rootLoop_calls[of st G _ "getTurn (recording G) st"
          "orderMoves (getLegalMoves (recording G) st)" None NegInf]
      by (simp add: computeBestMove_def Let_def)
  qed
qed

text \<open>
  Claim C1. For every level and every position, \<open>computeBestMove\<close> hands the game back
  in the state it received it in, so the FEN read after the call equals the FEN read
  before it; the engine is any game whose \<open>undo\<close> reverses an accepted move and whose
  rejected moves change nothing. And for any game at all, the calls the search issues
  are paired: every accepted \<open>makeMove\<close> of the root loop and of \<open>minimax\<close> is followed
  by its own \<open>undo\<close> before the function returns, also on the paths that leave a loop
  early on a cut-off.
\<close>

theorem computeBestMove_restores_position:
  "(make_undo_symmetric G \<longrightarrow>
      snd (computeBestMove G randomIndex level s) = s
      \<and> getFEN G (snd (computeBestMove G randomIndex level s)) = getFEN G s)
   \<and> paired (snd (snd (computeBestMove (recording G) randomIndex level (s, []))))"
proof -
  have restored: "make_undo_symmetric G \<longrightarrow> snd (computeBestMove G randomIndex level s) = s"
  proof
    assume sym: "make_undo_symmetric G"
    show "snd (computeBestMove G randomIndex level s) = s"
      using rootLoop_state[OF sym] by (simp add: computeBestMove_def Let_def)
  qed
  have calls: "paired (snd (snd (computeBestMove (recording G) randomIndex level (s, []))))"
    using computeBestMove_calls[of "(s, [])" G randomIndex level]
    by (auto simp: appends_neutral_def neutral_def paired_def)
  from restored calls show ?thesis by simp
qed

lemma stackGame_symmetric: "make_undo_symmetric stackGame"
  unfolding make_undo_symmetric_def stackGame_def
  by (auto split: list.splits)

text \<open>The stack game is such an engine; a search three plies deep leaves it as it was.\<close>

theorem computeBestMove_restores_position_witness:
  "make_undo_symmetric stackGame
   \<and> getFEN stackGame (snd (computeBestMove stackGame firstIndex ''hard'' [0])) = getFEN stackGame [0]
   \<and> paired (snd (snd (computeBestMove (recording stackGame) firstIndex ''hard'' ([0], []))))"
  using computeBestMove_restores_position[of stackGame firstIndex "''hard''" "[0]"]
    stackGame_symmetric
  by simp

lemma row_fold_sum:
  "fold (\<lambda>cell sc'. case cell of None \<Rightarrow> sc'
           | Some piece \<Rightarrow> sc' + (if piece_color piece = c then pieceValue piece else - pieceValue piece))
        row acc
   = acc + (\<Sum>cell \<leftarrow> row. case cell of None \<Rightarrow> 0
              | Some piece \<Rightarrow> (if piece_color piece = c then pieceValue piece else - pieceValue piece))"
  by (induction row arbitrary: acc) (auto split: option.splits)

lemma board_fold_sum:
  "fold (\<lambda>row sc.
      fold (\<lambda>cell sc'. case cell of None \<Rightarrow> sc'
           | Some piece \<Rightarrow> sc' + (if piece_color piece = c then pieceValue piece else - pieceValue piece))
        row sc) board acc
   = acc + materialSum board c"
  by (induction board arbitrary: acc) (auto simp: materialSum_def row_fold_sum)

text \<open>
  Claim C7. The evaluation is the material balance (pawn 100, knight 300, bishop 300,
  rook 500, queen 900, king 10000; positive for the maximizing colour, negative for the
  other), except in a finished game with result \<open>1-0\<close> or \<open>0-1\<close>, where it is plus
  infinity when the winner is the maximizing colour and minus infinity otherwise. A
  finished game with a drawn result keeps the material balance.
\<close>

theorem evaluate_material_or_decided:
  "evaluate G maximizingColor s =
     (if isGameOver G s \<and> getResult G s = ''1-0''
        then (if maximizingColor = White then PosInf else NegInf)
      else if isGameOver G s \<and> getResult G s = ''0-1''
        then (if maximizingColor = Black then PosInf else NegInf)
      else Fin (materialSum (getBoard G s) maximizingColor))
   \<and> (isGameOver G s \<and> getResult G s = ''1/2-1/2'' \<longrightarrow>
        evaluate G maximizingColor s = Fin (materialSum (getBoard G s) maximizingColor))
   \<and> pieceValue \<lparr>piece_type = ''pawn'', piece_color = col\<rparr> = 100
   \<and> pieceValue \<lparr>piece_type = ''knight'', piece_color = col\<rparr> = 300
   \<and> pieceValue \<lparr>piece_type = ''bishop'', piece_color = col\<rparr> = 300
   \<and> pieceValue \<lparr>piece_type = ''rook'', piece_color = col\<rparr> = 500
   \<and> pieceValue \<lparr>piece_type = ''queen'', piece_color = col\<rparr> = 900
   \<and> pieceValue \<lparr>piece_type = ''king'', piece_color = col\<rparr> = 10000"
proof -
  have "evaluate G maximizingColor s =
     (if isGameOver G s \<and> getResult G s = ''1-0''
        then (if maximizingColor = White then PosInf else NegInf)
      else if isGameOver G s \<and> getResult G s = ''0-1''
        then (if maximizingColor = Black then PosInf else NegInf)
      else Fin (materialSum (getBoard G s) maximizingColor))"
    by (simp add: evaluate_def Let_def board_fold_sum)
  then show ?thesis by (simp add: pieceValue_def)
qed

lemma orderMoves_Nil: "orderMoves [] = []"
  by (simp add: orderMoves_def)

lemma peak_ge: "k \<le> peak cs k"
  by (induction cs k rule: peak.induct) auto

lemma peak_append:
  "pending u k = Some k' \<Longrightarrow> peak (u @ v) k = max (peak u k) (peak v k')"
proof (induction u k rule: pending.induct)
  case (1 k)
  then show ?case using peak_ge[of k v] by simp
next
  case (2 cs k)
  then show ?case by simp
next
  case (3 cs k)
  then show ?case by simp
next
  case (4 cs)
  then show ?case by simp
next
  case (5 cs k)
  then show ?case by simp
qed

lemma within_Nil: "plies_within d []"
  by (simp add: plies_within_def)

lemma within_Rejected: "plies_within d w \<Longrightarrow> plies_within d (Rejected # w)"
  by (simp add: plies_within_def)

lemma within_Accepted:
  assumes u: "plies_within d u" and w: "plies_within (Suc d) w"
  shows "plies_within (Suc d) (Accepted # u @ Undone # w)"
proof -
  have "pending (Accepted # u @ Undone # w) k = Some k
        \<and> peak (Accepted # u @ Undone # w) k \<le> k + Suc d" for k
  proof -
    from u have "pending u (Suc k) = Some (Suc k) \<and> peak u (Suc k) \<le> Suc k + d"
      unfolding plies_within_def by blast
    then have pu: "pending u (Suc k) = Some (Suc k)" and ku: "peak u (Suc k) \<le> Suc k + d"
      by simp_all
    from w have "pending w k = Some k \<and> peak w k \<le> k + Suc d"
      unfolding plies_within_def by blast
    then have pw: "pending w k = Some k" and kw: "peak w k \<le> k + Suc d"
      by simp_all
    have "peak (u @ Undone # w) (Suc k) = max (peak u (Suc k)) (peak (Undone # w) (Suc k))"
      using peak_append[OF pu] by simp
    with pu pw ku kw show ?thesis by (simp add: pending_append)
  qed
  then show ?thesis by (simp add: plies_within_def)
qed

lemma reach_within: "plies_reach d w \<Longrightarrow> plies_within d w"
  by (simp add: plies_reach_def plies_within_def)

lemma reach_Accepted:
  assumes u: "plies_reach d u" and w: "plies_within (Suc d) w"
  shows "plies_reach (Suc d) (Accepted # u @ Undone # w)"
proof -
  have "pending (Accepted # u @ Undone # w) k = Some k
        \<and> peak (Accepted # u @ Undone # w) k = k + Suc d" for k
  proof -
    from u have "pending u (Suc k) = Some (Suc k) \<and> peak u (Suc k) = Suc k + d"
      unfolding plies_reach_def by blast
    then have pu: "pending u (Suc k) = Some (Suc k)" and ku: "peak u (Suc k) = Suc k + d"
      by simp_all
    from w have "pending w k = Some k \<and> peak w k \<le> k + Suc d"
      unfolding plies_within_def by blast
    then have pw: "pending w k = Some k" and kw: "peak w k \<le> k + Suc d"
      by simp_all
    have "peak (u @ Undone # w) (Suc k) = max (peak u (Suc k)) (peak (Undone # w) (Suc k))"
      using peak_append[OF pu] by simp
    with pu pw ku kw show ?thesis by (simp add: pending_append)
  qed
  then show ?thesis by (simp add: plies_reach_def)
qed

text \<open>
  What a loop adds to the recorded calls: nothing, or a rejected move followed by the
  calls of the rest of the loop, or an accepted move, the calls of the search below it,
  its undo, and the calls of the rest of the loop.
\<close>

lemma maxLoop_appends:
  assumes child: "\<And>a b st. appends P st (snd (child a b st))"
    and nil: "Q []"
    and rej: "\<And>w. Q w \<Longrightarrow> Q (Rejected # w)"
    and acc: "\<And>u w. P u \<Longrightarrow> Q w \<Longrightarrow> Q (Accepted # u @ Undone # w)"
  shows "appends Q st (snd (maxLoop child (recording G) ms v a b st))"
proof (induction ms arbitrary: v a b st)
  case Nil
  show ?case by (simp add: appends_def nil)
next
  case (Cons m ms)
  obtain s calls where st: "st = (s, calls)" by (cases st)
  obtain r s1 where mk: "game_move G s (move_from m) (move_to m) (move_promotion m) = (r, s1)"
    by (cases "game_move G s (move_from m) (move_to m) (move_promotion m)")
  show ?case
  proof (cases r)
    case None
    from Cons.IH[where v = v and a = a and b = b and st = "(s1, calls @ [Rejected])"]
    obtain w where "snd (snd (maxLoop child (recording G) ms v a b (s1, calls @ [Rejected])))
        = (calls @ [Rejected]) @ w" "Q w"
      by (auto simp: appends_def)
    with st mk None show ?thesis
      by (auto simp: appends_def recording_makeMove intro: rej)
  next
    case (Some applied)
    obtain cv s2 calls2 where ch: "child a b (s1, calls @ [Accepted]) = (cv, (s2, calls2))"
      by (cases "child a b (s1, calls @ [Accepted])") auto
    from child[where st = "(s1, calls @ [Accepted])" and a = a and b = b] ch
    obtain u where u: "calls2 = (calls @ [Accepted]) @ u" "P u"
      by (auto simp: appends_def)
    obtain s3 where un: "snd (undo (recording G) (s2, calls2)) = (s3, calls2 @ [Undone])"
      using recording_undo[of G s2 calls2] by auto
    let ?v = "score_max v cv" and ?a = "score_max a (score_max v cv)"
    from Cons.IH[where v = ?v and a = ?a and b = b and st = "(s3, calls2 @ [Undone])"]
    obtain w where w: "snd (snd (maxLoop child (recording G) ms ?v ?a b (s3, calls2 @ [Undone])))
        = (calls2 @ [Undone]) @ w" "Q w"
      by (auto simp: appends_def)
    show ?thesis
    proof (cases "score_ge ?a b")
      case True
      with st mk Some ch un u show ?thesis
        using acc[OF u(2) nil]
        by (auto simp: appends_def recording_makeMove Let_def)
    next
      case False
      with st mk Some ch un u w show ?thesis
        using acc[OF u(2) w(2)]
        by (auto simp: appends_def recording_makeMove Let_def)
    qed
  qed
qed

lemma minLoop_appends:
  assumes child: "\<And>a b st. appends P st (snd (child a b st))"
    and nil: "Q []"
    and rej: "\<And>w. Q w \<Longrightarrow> Q (Rejected # w)"
    and acc: "\<And>u w. P u \<Longrightarrow> Q w \<Longrightarrow> Q (Accepted # u @ Undone # w)"
  shows "appends Q st (snd (minLoop child (recording G) ms v a b st))"
proof (induction ms arbitrary: v a b st)
  case Nil
  show ?case by (simp add: appends_def nil)
next
  case (Cons m ms)
  obtain s calls where st: "st = (s, calls)" by (cases st)
  obtain r s1 where mk: "game_move G s (move_from m) (move_to m) (move_promotion m) = (r, s1)"
    by (cases "game_move G s (move_from m) (move_to m) (move_promotion m)")
  show ?case
  proof (cases r)
    case None
    from Cons.IH[where v = v and a = a and b = b and st = "(s1, calls @ [Rejected])"]
    obtain w where "snd (snd (minLoop child (recording G) ms v a b (s1, calls @ [Rejected])))
        = (calls @ [Rejected]) @ w" "Q w"
      by (auto simp: appends_def)
    with st mk None show ?thesis
      by (auto simp: appends_def recording_makeMove intro: rej)
  next
    case (Some applied)
    obtain cv s2 calls2 where ch: "child a b (s1, calls @ [Accepted]) = (cv, (s2, calls2))"
      by (cases "child a b (s1, calls @ [Accepted])") auto
    from child[where st = "(s1, calls @ [Accepted])" and a = a and b = b] ch
    obtain u where u: "calls2 = (calls @ [Accepted]) @ u" "P u"
      by (auto simp: appends_def)
    obtain s3 where un: "snd (undo (recording G) (s2, calls2)) = (s3, calls2 @ [Undone])"
      using recording_undo[of G s2 calls2] by auto
    let ?v = "score_min v cv" and ?b = "score_min b (score_min v cv)"
    from Cons.IH[where v = ?v and a = a and b = ?b and st = "(s3, calls2 @ [Undone])"]
    obtain w where w: "snd (snd (minLoop child (recording G) ms ?v a ?b (s3, calls2 @ [Undone])))
        = (calls2 @ [Undone]) @ w" "Q w"
      by (auto simp: appends_def)
    show ?thesis
    proof (cases "score_ge a ?b")
      case True
      with st mk Some ch un u show ?thesis
        using acc[OF u(2) nil]
        by (auto simp: appends_def recording_makeMove Let_def)
    next
      case False
      with st mk Some ch un u w show ?thesis
        using acc[OF u(2) w(2)]
        by (auto simp: appends_def recording_makeMove Let_def)
    qed
  qed
qed

lemma rootLoop_appends:
  assumes child: "\<And>st. appends P st (snd (minimax (d - 1) (recording G) c NegInf PosInf st))"
    and nil: "Q []"
    and rej: "\<And>w. Q w \<Longrightarrow> Q (Rejected # w)"
    and acc: "\<And>u w. P u \<Longrightarrow> Q w \<Longrightarrow> Q (Accepted # u @ Undone # w)"
  shows "appends Q st (snd (rootLoop (recording G) d c ms best bestScore st))"
proof (induction ms arbitrary: best bestScore st)
  case Nil
  show ?case by (simp add: appends_def nil)
next
  case (Cons m ms)
  obtain s calls where st: "st = (s, calls)" by (cases st)
  obtain r s1 where mk: "game_move G s (move_from m) (move_to m) (move_promotion m) = (r, s1)"
    by (cases "game_move G s (move_from m) (move_to m) (move_promotion m)")
  show ?case
  proof (cases r)
    case None
    from Cons.IH[where best = best and bestScore = bestScore and st = "(s1, calls @ [Rejected])"]
    obtain w where "snd (snd (rootLoop (recording G) d c ms best bestScore (s1, calls @ [Rejected])))
        = (calls @ [Rejected]) @ w" "Q w"
      by (auto simp: appends_def)
    with st mk None show ?thesis
      by (auto simp: appends_def recording_makeMove intro: rej)
  next
    case (Some applied)
    obtain sc s2 calls2 where ch:
      "minimax (d - 1) (recording G) c NegInf PosInf (s1, calls @ [Accepted]) = (sc, (s2, calls2))"
      by (cases "minimax (d - 1) (recording G) c NegInf PosInf (s1, calls @ [Accepted])") auto
    from child[where st = "(s1, calls @ [Accepted])"] ch
    obtain u where u: "calls2 = (calls @ [Accepted]) @ u" "P u"
      by (auto simp: appends_def)
    obtain s3 where un: "snd (undo (recording G) (s2, calls2)) = (s3, calls2 @ [Undone])"
      using recording_undo[of G s2 calls2] by auto
    from Cons.IH[where st = "(s3, calls2 @ [Undone])"]
    have "\<And>best' score'. \<exists>w. snd (snd (rootLoop (recording G) d c ms best' score' (s3, calls2 @ [Undone])))
        = (calls2 @ [Undone]) @ w \<and> Q w"
      by (auto simp: appends_def)
    then obtain w1 w2 where
      w1: "snd (snd (rootLoop (recording G) d c ms (Some m) sc (s3, calls2 @ [Undone])))
        = (calls2 @ [Undone]) @ w1" "Q w1" and
      w2: "snd (snd (rootLoop (recording G) d c ms best bestScore (s3, calls2 @ [Undone])))
        = (calls2 @ [Undone]) @ w2" "Q w2"
      by metis
    show ?thesis
    proof (cases "score_less bestScore sc")
      case True
      with st mk Some ch un u w1 show ?thesis
        using acc[OF u(2) w1(2)]
        by (auto simp: appends_def recording_makeMove Let_def)
    next
      case False
      with st mk Some ch un u w2 show ?thesis
        using acc[OF u(2) w2(2)]
        by (auto simp: appends_def recording_makeMove Let_def)
    qed
  qed
qed

text \<open>
  When the engine accepts every move, the first move of a loop is always played and
  searched, whatever cut-off follows.
\<close>

lemma maxLoop_first:
  assumes accepts: "\<And>s f t p. fst (game_move G s f t p) \<noteq> None"
    and child: "\<And>a b st. appends P st (snd (child a b st))"
    and rest: "\<And>v a b st. appends Q st (snd (maxLoop child (recording G) ms v a b st))"
    and nil: "Q []"
  shows "\<exists>u w. snd (snd (maxLoop child (recording G) (m # ms) v a b (s, calls)))
            = calls @ Accepted # u @ Undone # w \<and> P u \<and> Q w"
proof -
  obtain r s1 where mk: "game_move G s (move_from m) (move_to m) (move_promotion m) = (r, s1)"
    by (cases "game_move G s (move_from m) (move_to m) (move_promotion m)")
  with accepts[of s "move_from m" "move_to m" "move_promotion m"]
  obtain applied where Some: "r = Some applied" by (cases r) auto
  obtain cv s2 calls2 where ch: "child a b (s1, calls @ [Accepted]) = (cv, (s2, calls2))"
    by (cases "child a b (s1, calls @ [Accepted])") auto
  from child[where st = "(s1, calls @ [Accepted])" and a = a and b = b] ch
  obtain u where u: "calls2 = (calls @ [Accepted]) @ u" "P u"
    by (auto simp: appends_def)
  obtain s3 where un: "snd (undo (recording G) (s2, calls2)) = (s3, calls2 @ [Undone])"
    using recording_undo[of G s2 calls2] by auto
  let ?v = "score_max v cv" and ?a = "score_max a (score_max v cv)"
  from rest[where v = ?v and a = ?a and b = b and st = "(s3, calls2 @ [Undone])"]
  obtain w where w: "snd (snd (maxLoop child (recording G) ms ?v ?a b (s3, calls2 @ [Undone])))
      = (calls2 @ [Undone]) @ w" "Q w"
    by (auto simp: appends_def)
  show ?thesis
  proof (cases "score_ge ?a b")
    case True
    with mk Some ch un u nil show ?thesis
      by (auto simp: recording_makeMove Let_def)
  next
    case False
    with mk Some ch un u w show ?thesis
      by (auto simp: recording_makeMove Let_def)
  qed
qed

lemma minLoop_first:
  assumes accepts: "\<And>s f t p. fst (game_move G s f t p) \<noteq> None"
    and child: "\<And>a b st. appends P st (snd (child a b st))"
    and rest: "\<And>v a b st. appends Q st (snd (minLoop child (recording G) ms v a b st))"
    and nil: "Q []"
  shows "\<exists>u w. snd (snd (minLoop child (recording G) (m # ms) v a b (s, calls)))
            = calls @ Accepted # u @ Undone # w \<and> P u \<and> Q w"
proof -
  obtain r s1 where mk: "game_move G s (move_from m) (move_to m) (move_promotion m) = (r, s1)"
    by (cases "game_move G s (move_from m) (move_to m) (move_promotion m)")
  with accepts[of s "move_from m" "move_to m" "move_promotion m"]
  obtain applied where Some: "r = Some applied" by (cases r) auto
  obtain cv s2 calls2 where ch: "child a b (s1, calls @ [Accepted]) = (cv, (s2, calls2))"
    by (cases "child a b (s1, calls @ [Accepted])") auto
  from child[where st = "(s1, calls @ [Accepted])" and a = a and b = b] ch
  obtain u where u: "calls2 = (calls @ [Accepted]) @ u" "P u"
    by (auto simp: appends_def)
  obtain s3 where un: "snd (undo (recording G) (s2, calls2)) = (s3, calls2 @ [Undone])"
    using recording_undo[of G s2 calls2] by auto
  let ?v = "score_min v cv" and ?b = "score_min b (score_min v cv)"
  from rest[where v = ?v and a = a and b = ?b and st = "(s3, calls2 @ [Undone])"]
  obtain w where w: "snd (snd (minLoop child (recording G) ms ?v a ?b (s3, calls2 @ [Undone])))
      = (calls2 @ [Undone]) @ w" "Q w"
    by (auto simp: appends_def)
  show ?thesis
  proof (cases "score_ge a ?b")
    case True
    with mk Some ch un u nil show ?thesis
      by (auto simp: recording_makeMove Let_def)
  next
    case False
    with mk Some ch un u w show ?thesis
      by (auto simp: recording_makeMove Let_def)
  qed
qed

lemma rootLoop_first:
  assumes accepts: "\<And>s f t p. fst (game_move G s f t p) \<noteq> None"
    and child: "\<And>st. appends P st (snd (minimax (d - 1) (recording G) c NegInf PosInf st))"
    and rest: "\<And>best bestScore st. appends Q st (snd (rootLoop (recording G) d c ms best bestScore st))"
  shows "\<exists>u w. snd (snd (rootLoop (recording G) d c (m # ms) best bestScore (s, calls)))
            = calls @ Accepted # u @ Undone # w \<and> P u \<and> Q w"
proof -
  obtain r s1 where mk: "game_move G s (move_from m) (move_to m) (move_promotion m) = (r, s1)"
    by (cases "game_move G s (move_from m) (move_to m) (move_promotion m)")
  with accepts[of s "move_from m" "move_to m" "move_promotion m"]
  obtain applied where Some: "r = Some applied" by (cases r) auto
  obtain sc s2 calls2 where ch:
    "minimax (d - 1) (recording G) c NegInf PosInf (s1, calls @ [Accepted]) = (sc, (s2, calls2))"
    by (cases "minimax (d - 1) (recording G) c NegInf PosInf (s1, calls @ [Accepted])") auto
  from child[where st = "(s1, calls @ [Accepted])"] ch
  obtain u where u: "calls2 = (calls @ [Accepted]) @ u" "P u"
    by (auto simp: appends_def)
  obtain s3 where un: "snd (undo (recording G) (s2, calls2)) = (s3, calls2 @ [Undone])"
    using recording_undo[of G s2 calls2] by auto
  from rest[where st = "(s3, calls2 @ [Undone])"]
  have "\<And>best' score'. \<exists>w. snd (snd (rootLoop (recording G) d c ms best' score' (s3, calls2 @ [Undone])))
      = (calls2 @ [Undone]) @ w \<and> Q w"
    by (auto simp: appends_def)
  then obtain w1 w2 where
    w1: "snd (snd (rootLoop (recording G) d c ms (Some m) sc (s3, calls2 @ [Undone])))
      = (calls2 @ [Undone]) @ w1" "Q w1" and
    w2: "snd (snd (rootLoop (recording G) d c ms best bestScore (s3, calls2 @ [Undone])))
      = (calls2 @ [Undone]) @ w2" "Q w2"
    by metis
  show ?thesis
  proof (cases "score_less bestScore sc")
    case True
    with mk Some ch un u w1 show ?thesis
      by (auto simp: recording_makeMove Let_def)
  next
    case False
    with mk Some ch un u w2 show ?thesis
      by (auto simp: recording_makeMove Let_def)
  qed
qed

text \<open>A search with \<open>d\<close> plies left never has more than \<open>d\<close> moves of its own pending.\<close>

lemma minimax_within:
  "appends (plies_within d) st (snd (minimax d (recording G) c a b st))"
proof (induction d arbitrary: a b st)
  case 0
  show ?case by (simp add: appends_def within_Nil)
next
  case (Suc d)
  have same: "appends (plies_within (Suc d)) st st" by (simp add: appends_def within_Nil)
  show ?case
    using maxLoop_appends[of "plies_within d" "minimax d (recording G) c" "plies_within (Suc d)" st G,
        OF Suc.IH within_Nil within_Rejected within_Accepted]
      minLoop_appends[of "plies_within d" "minimax d (recording G) c" "plies_within (Suc d)" st G,
        OF Suc.IH within_Nil within_Rejected within_Accepted] same
    by (simp add: Let_def)
qed

lemma rootLoop_within:
  "appends (plies_within (Suc d)) st (snd (rootLoop (recording G) (Suc d) c ms best bestScore st))"
  using rootLoop_appends[of "plies_within d" "Suc d" G c "plies_within (Suc d)" st ms best bestScore]
    minimax_within[of d _ G c NegInf PosInf] within_Nil within_Rejected within_Accepted
  by simp

text \<open>In a game that never ends it has exactly \<open>d\<close> of them pending at some moment.\<close>

lemma never_ends_accepts:
  "never_ends G \<Longrightarrow> fst (game_move G s f t p) \<noteq> None"
  by (simp add: never_ends_def)

lemma minimax_reach:
  assumes ne: "never_ends G"
  shows "appends (plies_reach d) st (snd (minimax d (recording G) c a b st))"
proof (induction d arbitrary: a b st)
  case 0
  show ?case by (simp add: appends_def plies_reach_def)
next
  case (Suc d)
  obtain s calls where st: "st = (s, calls)" by (cases st)
  from ne have playing: "\<not> isGameOver G s" and some: "getLegalMoves G s \<noteq> []"
    by (simp_all add: never_ends_def isGameOver_def getLegalMoves_def)
  then obtain m ms where legal: "getLegalMoves G s = m # ms" by (cases "getLegalMoves G s") auto
  have below: "\<And>a b st. appends (plies_within d) st (snd (minimax d (recording G) c a b st))"
    by (rule minimax_within)
  have restMax: "\<And>v a b st. appends (plies_within (Suc d)) st
      (snd (maxLoop (minimax d (recording G) c) (recording G) ms v a b st))"
    by (rule maxLoop_appends[OF below within_Nil within_Rejected within_Accepted])
  have restMin: "\<And>v a b st. appends (plies_within (Suc d)) st
      (snd (minLoop (minimax d (recording G) c) (recording G) ms v a b st))"
    by (rule minLoop_appends[OF below within_Nil within_Rejected within_Accepted])
  from maxLoop_first[where P = "plies_reach d" and Q = "plies_within (Suc d)"
      and child = "minimax d (recording G) c" and G = G and ms = ms and m = m and v = NegInf
      and a = a and b = b and s = s and calls = calls,
      OF never_ends_accepts[OF ne] Suc.IH restMax within_Nil]
  have mx: "appends (plies_reach (Suc d)) st
      (snd (maxLoop (minimax d (recording G) c) (recording G) (m # ms) NegInf a b st))"
    using st reach_Accepted by (fastforce simp: appends_def)
  from minLoop_first[where P = "plies_reach d" and Q = "plies_within (Suc d)"
      and child = "minimax d (recording G) c" and G = G and ms = ms and m = m and v = PosInf
      and a = a and b = b and s = s and calls = calls,
      OF never_ends_accepts[OF ne] Suc.IH restMin within_Nil]
  have mn: "appends (plies_reach (Suc d)) st
      (snd (minLoop (minimax d (recording G) c) (recording G) (m # ms) PosInf a b st))"
    using st reach_Accepted by (fastforce simp: appends_def)
  from mx mn st playing legal show ?case
    by (simp add: Let_def recording_observers del: maxLoop.simps minLoop.simps)
qed

lemma rootLoop_reach:
  assumes ne: "never_ends G" and some: "ms \<noteq> []"
  shows "appends (plies_reach (Suc d)) st
           (snd (rootLoop (recording G) (Suc d) c ms best bestScore st))"
proof -
  obtain s calls where st: "st = (s, calls)" by (cases st)
  from some obtain m rest where ms: "ms = m # rest" by (cases ms) auto
  have below: "\<And>st. appends (plies_reach d) st
      (snd (minimax (Suc d - 1) (recording G) c NegInf PosInf st))"
    using minimax_reach[OF ne, of d _ c NegInf PosInf] by simp
  have others: "\<And>best bestScore st. appends (plies_within (Suc d)) st
      (snd (rootLoop (recording G) (Suc d) c rest best bestScore st))"
    by (rule rootLoop_within)
  from rootLoop_first[where P = "plies_reach d" and Q = "plies_within (Suc d)" and G = G
      and d = "Suc d" and c = c and ms = rest and m = m and best = best and bestScore = bestScore
      and s = s and calls = calls, OF never_ends_accepts[OF ne] below others]
  show ?thesis
    using st ms reach_Accepted by (fastforce simp: appends_def)
qed

lemma orderMoves_length: "length (orderMoves ms) = length ms"
  by (simp add: orderMoves_def)

lemma searchCalls_none:
  "depthForLevel level = 0 \<Longrightarrow> searchCalls G randomIndex level s = []"
  by (simp add: searchCalls_def computeBestMove_def Let_def)

lemma searchCalls_rootLoop:
  "depthForLevel level > 0 \<Longrightarrow>
     searchCalls G randomIndex level s
       = snd (snd (rootLoop (recording G) (effectiveDepth G level s) (getTurn G s)
                     (orderMoves (getLegalMoves G s)) None NegInf (s, [])))"
  by (simp add: searchCalls_def computeBestMove_def effectiveDepth_def Let_def recording_observers)

lemma effectiveDepth_positive:
  "depthForLevel level > 0 \<Longrightarrow> effectiveDepth G level s > 0"
  by (simp add: effectiveDepth_def Let_def)

lemma searchCalls_within:
  assumes "depthForLevel level > 0"
  shows "deepestPly (searchCalls G randomIndex level s) \<le> effectiveDepth G level s"
proof -
  from effectiveDepth_positive[OF assms, of G s]
  obtain d where d: "effectiveDepth G level s = Suc d"
    by (cases "effectiveDepth G level s") auto
  from rootLoop_within[of d "(s, [])" G "getTurn G s" "orderMoves (getLegalMoves G s)" None NegInf]
  have "plies_within (Suc d) (searchCalls G randomIndex level s)"
    using searchCalls_rootLoop[OF assms, of G randomIndex s] d by (simp add: appends_def)
  then have "peak (searchCalls G randomIndex level s) 0 \<le> 0 + Suc d"
    unfolding plies_within_def by blast
  with d show ?thesis by (simp add: deepestPly_def)
qed

lemma searchCalls_reach:
  assumes "depthForLevel level > 0" and ne: "never_ends G"
  shows "deepestPly (searchCalls G randomIndex level s) = effectiveDepth G level s"
proof -
  from effectiveDepth_positive[OF assms(1), of G s]
  obtain d where d: "effectiveDepth G level s = Suc d"
    by (cases "effectiveDepth G level s") auto
  from ne have "getLegalMoves G s \<noteq> []" by (simp add: never_ends_def getLegalMoves_def)
  then have some: "orderMoves (getLegalMoves G s) \<noteq> []"
    using orderMoves_length[of "getLegalMoves G s"] by (metis length_0_conv)
  from rootLoop_reach[OF ne some, of d "(s, [])" "getTurn G s" None NegInf]
  have "plies_reach (Suc d) (searchCalls G randomIndex level s)"
    using searchCalls_rootLoop[OF assms(1), of G randomIndex s] d by (simp add: appends_def)
  then have "peak (searchCalls G randomIndex level s) 0 = 0 + Suc d"
    unfolding plies_reach_def by blast
  with d show ?thesis by (simp add: deepestPly_def)
qed

text \<open>
  Claim C6. The nominal depths are harmless/random 0, easy 1, medium 2, hard 3, expert 4,
  godlike 5. The depth a call searches with is 3 when the nominal depth exceeds 3 and the
  root has more than 60 legal moves, and the nominal depth for every other level and
  position. That depth is the one the search uses: the root loop runs with it, no line
  of the search is ever more plies below the root than it, and in a game that never ends
  (so that nothing but the depth limit stops a line) the deepest line is exactly that
  many plies below the root. At depth 0 the engine is asked for no move at all.
\<close>

theorem computeBestMove_effective_depth:
  "depthForLevel ''harmless'' = 0 \<and> depthForLevel ''random'' = 0 \<and> depthForLevel ''easy'' = 1
   \<and> depthForLevel ''medium'' = 2 \<and> depthForLevel ''hard'' = 3 \<and> depthForLevel ''expert'' = 4
   \<and> depthForLevel ''godlike'' = 5
   \<and> (depthForLevel level > 3 \<and> length (getLegalMoves G s) > 60 \<longrightarrow>
        computeBestMove G randomIndex level s
          = rootLoop G 3 (getTurn G s) (orderMoves (getLegalMoves G s)) None NegInf s
        \<and> deepestPly (searchCalls G randomIndex level s) \<le> 3
        \<and> (never_ends G \<longrightarrow> deepestPly (searchCalls G randomIndex level s) = 3))
   \<and> (depthForLevel level > 0 \<and> \<not> (depthForLevel level > 3 \<and> length (getLegalMoves G s) > 60) \<longrightarrow>
        computeBestMove G randomIndex level s
          = rootLoop G (depthForLevel level) (getTurn G s) (orderMoves (getLegalMoves G s))
              None NegInf s
        \<and> deepestPly (searchCalls G randomIndex level s) \<le> depthForLevel level
        \<and> (never_ends G \<longrightarrow> deepestPly (searchCalls G randomIndex level s) = depthForLevel level))
   \<and> (depthForLevel level = 0 \<longrightarrow> searchCalls G randomIndex level s = [])"
proof -
  have table: "depthForLevel ''harmless'' = 0 \<and> depthForLevel ''random'' = 0
      \<and> depthForLevel ''easy'' = 1 \<and> depthForLevel ''medium'' = 2 \<and> depthForLevel ''hard'' = 3
      \<and> depthForLevel ''expert'' = 4 \<and> depthForLevel ''godlike'' = 5"
    by (simp add: depthForLevel_def)
  have throttled: "depthForLevel level > 3 \<and> length (getLegalMoves G s) > 60 \<longrightarrow>
        computeBestMove G randomIndex level s
          = rootLoop G 3 (getTurn G s) (orderMoves (getLegalMoves G s)) None NegInf s
        \<and> deepestPly (searchCalls G randomIndex level s) \<le> 3
        \<and> (never_ends G \<longrightarrow> deepestPly (searchCalls G randomIndex level s) = 3)"
  proof
    assume h: "depthForLevel level > 3 \<and> length (getLegalMoves G s) > 60"
    then have pos: "depthForLevel level > 0" by simp
    from h have eff: "effectiveDepth G level s = 3" by (simp add: effectiveDepth_def)
    from h have run: "computeBestMove G randomIndex level s
          = rootLoop G 3 (getTurn G s) (orderMoves (getLegalMoves G s)) None NegInf s"
      by (simp add: computeBestMove_def Let_def)
    from searchCalls_within[OF pos, of G randomIndex s] eff
    have le: "deepestPly (searchCalls G randomIndex level s) \<le> 3" by simp
    from searchCalls_reach[OF pos, of G randomIndex s] eff
    have eq: "never_ends G \<longrightarrow> deepestPly (searchCalls G randomIndex level s) = 3" by simp
    from run le eq show "computeBestMove G randomIndex level s
          = rootLoop G 3 (getTurn G s) (orderMoves (getLegalMoves G s)) None NegInf s
        \<and> deepestPly (searchCalls G randomIndex level s) \<le> 3
        \<and> (never_ends G \<longrightarrow> deepestPly (searchCalls G randomIndex level s) = 3)"
      by blast
  qed
  have nominal: "depthForLevel level > 0
        \<and> \<not> (depthForLevel level > 3 \<and> length (getLegalMoves G s) > 60) \<longrightarrow>
        computeBestMove G randomIndex level s
          = rootLoop G (depthForLevel level) (getTurn G s) (orderMoves (getLegalMoves G s))
              None NegInf s
        \<and> deepestPly (searchCalls G randomIndex level s) \<le> depthForLevel level
        \<and> (never_ends G \<longrightarrow> deepestPly (searchCalls G randomIndex level s) = depthForLevel level)"
  proof
    assume h: "depthForLevel level > 0
        \<and> \<not> (depthForLevel level > 3 \<and> length (getLegalMoves G s) > 60)"
    then have pos: "depthForLevel level > 0" by simp
    from h have eff: "effectiveDepth G level s = depthForLevel level"
      by (auto simp add: effectiveDepth_def)
    from h have run: "computeBestMove G randomIndex level s
          = rootLoop G (depthForLevel level) (getTurn G s) (orderMoves (getLegalMoves G s))
              None NegInf s"
      by (auto simp add: computeBestMove_def Let_def)
    from searchCalls_within[OF pos, of G randomIndex s] eff
    have le: "deepestPly (searchCalls G randomIndex level s) \<le> depthForLevel level" by simp
    from searchCalls_reach[OF pos, of G randomIndex s] eff
    have eq: "never_ends G \<longrightarrow>
        deepestPly (searchCalls G randomIndex level s) = depthForLevel level" by simp
    from run le eq show "computeBestMove G randomIndex level s
          = rootLoop G (depthForLevel level) (getTurn G s) (orderMoves (getLegalMoves G s))
              None NegInf s
        \<and> deepestPly (searchCalls G randomIndex level s) \<le> depthForLevel level
        \<and> (never_ends G \<longrightarrow> deepestPly (searchCalls G randomIndex level s) = depthForLevel level)"
      by blast
  qed
  have none: "depthForLevel level = 0 \<longrightarrow> searchCalls G randomIndex level s = []"
    using searchCalls_none[of level G randomIndex s] by blast
  from table throttled nominal none show ?thesis by blast
qed

text \<open>
  Claim C8. With no legal move at the root, \<open>computeBestMove\<close> returns null at every
  level (the model has no failing branch, and the game is untouched). At depth 0 the
  game is never changed, and a move that is returned is one of the legal moves read
  before the pick.
\<close>

theorem computeBestMove_null_on_empty:
  "(getLegalMoves G s = [] \<longrightarrow> computeBestMove G randomIndex level s = (None, s))
   \<and> (depthForLevel level = 0 \<longrightarrow>
        snd (computeBestMove G randomIndex level s) = s
        \<and> (\<forall>m. fst (computeBestMove G randomIndex level s) = Some m \<longrightarrow> m \<in> set (getLegalMoves G s)))"
proof -
  have idx: "\<And>i (xs :: Move list). 0 \<le> i \<Longrightarrow> i < int (length xs) \<Longrightarrow> xs ! nat i \<in> set xs"
    by (simp add: nat_less_iff)
  have empty: "getLegalMoves G s = [] \<longrightarrow> computeBestMove G randomIndex level s = (None, s)"
    by (simp add: computeBestMove_def Let_def orderMoves_Nil)
  have frame: "depthForLevel level = 0 \<longrightarrow> snd (computeBestMove G randomIndex level s) = s"
    by (simp add: computeBestMove_def Let_def)
  have legal: "depthForLevel level = 0 \<longrightarrow>
      (\<forall>m. fst (computeBestMove G randomIndex level s) = Some m \<longrightarrow> m \<in> set (getLegalMoves G s))"
    using idx by (auto simp add: computeBestMove_def Let_def split: if_splits)
  from empty frame legal show ?thesis by blast
qed

text \<open>For an index inside the list, which is what \<open>Math.floor(Math.random() * n)\<close> is
  meant to give, the depth-0 branch does return one of the legal moves whenever there
  is one.\<close>

lemma computeBestMove_random_pick:
  assumes "depthForLevel level = 0" "getLegalMoves G s \<noteq> []"
    "0 \<le> randomIndex (length (getLegalMoves G s))"
    "randomIndex (length (getLegalMoves G s)) < int (length (getLegalMoves G s))"
  shows "\<exists>m \<in> set (getLegalMoves G s). computeBestMove G randomIndex level s = (Some m, s)"
proof -
  let ?n = "length (getLegalMoves G s)"
  from assms(3,4) have "nat (randomIndex ?n) < ?n" by linarith
  then have mem: "getLegalMoves G s ! nat (randomIndex ?n) \<in> set (getLegalMoves G s)"
    by simp
  have "computeBestMove G randomIndex level s
          = (Some (getLegalMoves G s ! nat (randomIndex ?n)), s)"
    using assms by (simp add: computeBestMove_def Let_def)
  with mem show ?thesis by blast
qed

lemma endlessGame_never_ends: "never_ends (endlessGame (Suc w))"
  by (simp add: never_ends_def endlessGame_def)

lemma endlessGame_legal: "length (getLegalMoves (endlessGame w) n) = w"
  by (simp add: getLegalMoves_def endlessGame_def)

text \<open>
  In the endless game with 61 moves in every position, godlike and expert search 3 plies
  deep; with 60 moves godlike searches 5 plies deep; medium searches 2 plies deep; and
  harmless asks the engine for nothing.
\<close>

theorem computeBestMove_effective_depth_witness:
  "depthForLevel ''godlike'' > 3 \<and> depthForLevel ''expert'' > 3
   \<and> length (getLegalMoves (endlessGame 61) 0) > 60 \<and> never_ends (endlessGame 61)
   \<and> deepestPly (searchCalls (endlessGame 61) firstIndex ''godlike'' 0) = 3
   \<and> deepestPly (searchCalls (endlessGame 61) firstIndex ''expert'' 0) = 3
   \<and> \<not> length (getLegalMoves (endlessGame 60) 0) > 60 \<and> never_ends (endlessGame 60)
   \<and> deepestPly (searchCalls (endlessGame 60) firstIndex ''godlike'' 0) = 5
   \<and> deepestPly (searchCalls (endlessGame 61) firstIndex ''medium'' 0) = 2
   \<and> depthForLevel ''harmless'' = 0
   \<and> searchCalls (endlessGame 61) firstIndex ''harmless'' 0 = []"
proof -
  have a: "depthForLevel ''godlike'' = 5" "depthForLevel ''expert'' = 4"
    "depthForLevel ''medium'' = 2" "depthForLevel ''harmless'' = 0"
    by (simp_all add: depthForLevel_def)
  have b: "never_ends (endlessGame 61)" "never_ends (endlessGame 60)"
    using endlessGame_never_ends[of 60] endlessGame_never_ends[of 59] by simp_all
  show ?thesis
    using computeBestMove_effective_depth[of "''godlike''" "endlessGame 61" 0 firstIndex]
      computeBestMove_effective_depth[of "''expert''" "endlessGame 61" 0 firstIndex]
      computeBestMove_effective_depth[of "''godlike''" "endlessGame 60" 0 firstIndex]
      computeBestMove_effective_depth[of "''medium''" "endlessGame 61" 0 firstIndex]
      computeBestMove_effective_depth[of "''harmless''" "endlessGame 61" 0 firstIndex]
      a b endlessGame_legal[of 61 0] endlessGame_legal[of 60 0]
    by simp
qed

theorem evaluate_material_or_decided_witness:
  "isGameOver drawnGame [0] \<and> getResult drawnGame [0] = ''1/2-1/2''
   \<and> evaluate drawnGame White [0] = Fin 100
   \<and> evaluate drawnGame Black [0] = Fin (- 100)
   \<and> isGameOver stackGame [2] \<and> getResult stackGame [2] = ''0-1''
   \<and> evaluate stackGame White [2] = NegInf \<and> evaluate stackGame Black [2] = PosInf
   \<and> evaluate stackGame White [1] = Fin 0"
proof -
  have a: "isGameOver drawnGame [0]" by (simp add: isGameOver_def drawnGame_def)
  have b: "getResult drawnGame [0] = ''1/2-1/2''"
    by (simp add: getResult_def getStatus_def drawnGame_def)
  have c: "getBoard drawnGame [0] = [[Some (stackPiece 0), None], []]"
    by (simp add: getBoard_def drawnGame_def stackGame_def stackTop_def)
  have d: "isGameOver stackGame [2]" by (simp add: isGameOver_def stackGame_def stackTop_def)
  have e: "getResult stackGame [2] = ''0-1''"
    by (simp add: getResult_def getStatus_def getTurn_def stackGame_def stackTop_def)
  have f: "\<not> isGameOver stackGame [1]" by (simp add: isGameOver_def stackGame_def stackTop_def)
  have g: "getBoard stackGame [1] = [[Some (stackPiece 0), None], [Some (stackPiece 1)]]"
    by (simp add: getBoard_def stackGame_def stackTop_def)
  show ?thesis
    using evaluate_material_or_decided[of drawnGame White "[0]"]
      evaluate_material_or_decided[of drawnGame Black "[0]"]
      evaluate_material_or_decided[of stackGame White "[2]"]
      evaluate_material_or_decided[of stackGame Black "[2]"]
      evaluate_material_or_decided[of stackGame White "[1]"]
      a b c d e f g
    by (simp add: materialSum_def stackPiece_def pieceValue_def)
qed

theorem computeBestMove_null_on_empty_witness:
  "getLegalMoves stackGame [2] = []
   \<and> computeBestMove stackGame secondIndex ''hard'' [2] = (None, [2])
   \<and> computeBestMove stackGame secondIndex ''harmless'' [2] = (None, [2])
   \<and> depthForLevel ''harmless'' = 0
   \<and> fst (computeBestMove stackGame secondIndex ''harmless'' [0]) = Some (stackMoves 0 ! 1)
   \<and> stackMoves 0 ! 1 \<in> set (getLegalMoves stackGame [0])
   \<and> snd (computeBestMove stackGame secondIndex ''harmless'' [0]) = [0]"
proof -
  have a: "getLegalMoves stackGame [2] = []"
    by (simp add: getLegalMoves_def stackGame_def stackTop_def stackMoves_def)
  have d: "depthForLevel ''harmless'' = 0" by (simp add: depthForLevel_def)
  have e: "getLegalMoves stackGame [0] = stackMoves 0"
    by (simp add: getLegalMoves_def stackGame_def stackTop_def)
  have f: "length (stackMoves 0) = 2 \<and> stackMoves 0 \<noteq> []" by (simp add: stackMoves_def)
  have g: "fst (computeBestMove stackGame secondIndex ''harmless'' [0]) = Some (stackMoves 0 ! 1)"
    using d e f by (simp add: computeBestMove_def Let_def secondIndex_def)
  show ?thesis
    using computeBestMove_null_on_empty[of stackGame "[2]" secondIndex "''hard''"]
      computeBestMove_null_on_empty[of stackGame "[2]" secondIndex "''harmless''"]
      computeBestMove_null_on_empty[of stackGame "[0]" secondIndex "''harmless''"]
      a d e g
    by simp
qed

section \<open>Properties of the provider layer\<close>

subsection \<open>Adapters: result, turn and status\<close>




lemma rustNormGame_fields:
  assumes "rustNormGame raw = Inr st"
  shows "ng_turn st = assertColor (field raw ''currentPlayer'')"
    and "ng_result st = rustDeriveResult (field raw ''status'') (field raw ''currentPlayer'')"
    and "ng_gameOver st = js_includes [''checkmate'', ''stalemate'', ''draw'',
           ''insufficient_material'', ''threefold_repetition'', ''fifty_move_rule'']
           (field raw ''status'')"
  using assms
  by (auto simp: rustNormGame_def andThen_def Let_def split: if_splits sum.splits)

lemma goNormGame_fields:
  assumes "goNormGame raw = Inr st"
  shows "ng_turn st = assertColor (field raw ''active_color'')"
    and "ng_result st = goDeriveResult (field raw ''status'')"
    and "ng_gameOver st = js_includes [''white_wins'', ''black_wins'', ''stalemate'', ''draw'',
           ''insufficient_material'', ''threefold_repetition'', ''fifty_move_rule'']
           (field raw ''status'')"
  using assms
  by (auto simp: goNormGame_def andThen_def Let_def split: if_splits sum.splits)

lemma jsNormGame_fields:
  assumes "jsNormGame raw = Inr st"
  shows "ng_turn st = assertColor (field raw ''turn'')"
    and "ng_result st = jsDeriveResult raw"
    and "ng_gameOver st = js_truthy (field raw ''gameOver'')"
  using assms
  by (auto simp: jsNormGame_def andThen_def Let_def split: if_splits sum.splits)




lemma goInProgress_norm:
  "goNormGame goInProgressRaw
     = Inr \<lparr>ng_id = ''42'',
            ng_fen = ''rnbqkbnr/pppppppp/8/8/4P3/8/PPPP1PPP/RNBQKBNR b KQkq e3 0 1'',
            ng_turn = ''black'', ng_status = StatusStr ''active'', ng_check = False,
            ng_moveCount = 1,
            ng_moveHistory =
              [\<lparr>nm_from = ''e2'', nm_to = ''e4'', nm_san = JStr ''e4'',
                nm_piece = Some \<lparr>np_type = JStr ''pawn'', np_color = ''white''\<rparr>,
                nm_captured = None, nm_promotion = JUndefined\<rparr>],
            ng_board = None, ng_result = ''*'', ng_gameOver = False\<rparr>"
  by (simp add: goNormGame_def goInProgressRaw_def andThen_def Let_def js_coalesce_def
      js_nullish_def js_array_map_def assertColor_def goDeriveResult_def js_includes_def
      goNormStatus_def lookupStatus_def goStatusMap_def goNormMove_def goNormPiece_def
      string_of_int_def string_of_nat.simps)



lemma assertColor_cases:
  "assertColor c \<in> {''white'', ''black''}"
  "assertColor (JStr ''white'') = ''white''" "assertColor (JStr ''w'') = ''white''"
  "assertColor (JStr ''black'') = ''black''" "assertColor (JStr ''b'') = ''black''"
  "c \<noteq> JStr ''black'' \<Longrightarrow> c \<noteq> JStr ''b'' \<Longrightarrow> assertColor c = ''white''"
  by (auto simp: assertColor_def)

lemma rustNormGame_any_colour:
  assumes "rustNormGame (JObj kvs) = Inr st"
  shows "rustNormGame (JObj ((''currentPlayer'', v) # kvs))
           = Inr (st\<lparr>ng_turn := assertColor v,
                     ng_result := rustDeriveResult (field (JObj kvs) ''status'') v\<rparr>)"
  using assms
  by (auto simp: rustNormGame_def andThen_def Let_def js_nullish_def split: sum.splits)

lemma goNormGame_any_colour:
  assumes "goNormGame (JObj kvs) = Inr st"
  shows "goNormGame (JObj ((''active_color'', v) # kvs)) = Inr (st\<lparr>ng_turn := assertColor v\<rparr>)"
  using assms
  by (auto simp: goNormGame_def andThen_def Let_def js_nullish_def split: sum.splits)

lemma jsNormGame_any_colour:
  assumes "jsNormGame (JObj kvs) = Inr st"
  shows "jsNormGame (JObj ((''turn'', v) # kvs)) = Inr (st\<lparr>ng_turn := assertColor v\<rparr>)"
  using assms
  by (auto simp: jsNormGame_def andThen_def Let_def js_nullish_def jsDeriveResult_def split: sum.splits)

text \<open>
  Claim C10. \<open>assertColor\<close> returns \<open>white\<close> or \<open>black\<close> for every value: \<open>white\<close> and \<open>w\<close>
  give \<open>white\<close>, \<open>black\<close> and \<open>b\<close> give \<open>black\<close>, and every other value (undefined, null,
  a number, an object, any other string) gives \<open>white\<close>; it has no failing branch.
  Every state an adapter's \<open>normGame\<close> returns carries in \<open>turn\<close> the normalised colour
  field of the response, hence \<open>white\<close> or \<open>black\<close>. And the colour field never makes
  \<open>normGame\<close> fail: if a response is normalised to a state, then so is the response with
  any value at all in its colour field, to the same state with that value's colour as
  \<open>turn\<close> (and, for rust, the result derived from it).
\<close>

theorem normGame_turn_is_white_or_black:
  "(assertColor c = ''white'' \<or> assertColor c = ''black'')
   \<and> assertColor (JStr ''white'') = ''white'' \<and> assertColor (JStr ''w'') = ''white''
   \<and> assertColor (JStr ''black'') = ''black'' \<and> assertColor (JStr ''b'') = ''black''
   \<and> (c \<noteq> JStr ''black'' \<and> c \<noteq> JStr ''b'' \<longrightarrow> assertColor c = ''white'')
   \<and> (rustNormGame raw = Inr st \<longrightarrow>
        ng_turn st = assertColor (field raw ''currentPlayer'')
        \<and> (ng_turn st = ''white'' \<or> ng_turn st = ''black''))
   \<and> (goNormGame raw = Inr st \<longrightarrow>
        ng_turn st = assertColor (field raw ''active_color'')
        \<and> (ng_turn st = ''white'' \<or> ng_turn st = ''black''))
   \<and> (jsNormGame raw = Inr st \<longrightarrow>
        ng_turn st = assertColor (field raw ''turn'')
        \<and> (ng_turn st = ''white'' \<or> ng_turn st = ''black''))
   \<and> (rustNormGame (JObj kvs) = Inr st \<longrightarrow>
        rustNormGame (JObj ((''currentPlayer'', c) # kvs))
          = Inr (st\<lparr>ng_turn := assertColor c,
                    ng_result := rustDeriveResult (field (JObj kvs) ''status'') c\<rparr>))
   \<and> (goNormGame (JObj kvs) = Inr st \<longrightarrow>
        goNormGame (JObj ((''active_color'', c) # kvs)) = Inr (st\<lparr>ng_turn := assertColor c\<rparr>))
   \<and> (jsNormGame (JObj kvs) = Inr st \<longrightarrow>
        jsNormGame (JObj ((''turn'', c) # kvs)) = Inr (st\<lparr>ng_turn := assertColor c\<rparr>))"
  using rustNormGame_any_colour[of kvs st c] goNormGame_any_colour[of kvs st c]
    jsNormGame_any_colour[of kvs st c] assertColor_cases(1)[of c] assertColor_cases(2-5) assertColor_cases(6)[of c]
    assertColor_cases(1)[of "field raw ''currentPlayer''"]
    assertColor_cases(1)[of "field raw ''active_color''"] assertColor_cases(1)[of "field raw ''turn''"]
    rustNormGame_fields(1)[of raw st] goNormGame_fields(1)[of raw st] jsNormGame_fields(1)[of raw st]
  by auto

text \<open>A response whose colour fields are a number, null or missing is normalised
  by all three adapters to a state with turn \<open>white\<close>.\<close>

theorem normGame_turn_is_white_or_black_witness:
  "JNum 3 \<noteq> JStr ''black'' \<and> JNum 3 \<noteq> JStr ''b'' \<and> assertColor (JNum 3) = ''white''
   \<and> assertColor JUndefined = ''white''
   \<and> (\<exists>st. rustNormGame malformedTurnRaw = Inr st \<and> ng_turn st = ''white'')
   \<and> (\<exists>st. goNormGame malformedTurnRaw = Inr st \<and> ng_turn st = ''white'')
   \<and> (\<exists>st. jsNormGame malformedTurnRaw = Inr st \<and> ng_turn st = ''white'')
   \<and> (\<exists>st. goNormGame goInProgressRaw = Inr st \<and> ng_turn st = ''black'')
   \<and> (\<exists>st. rustNormGame (JObj []) = Inr st
         \<and> rustNormGame (JObj [(''currentPlayer'', JBool True)])
             = Inr (st\<lparr>ng_turn := ''white'', ng_result := ''*''\<rparr>))
   \<and> (\<exists>st. goNormGame (JObj []) = Inr st
         \<and> goNormGame (JObj [(''active_color'', JStr ''b'')]) = Inr (st\<lparr>ng_turn := ''black''\<rparr>))
   \<and> (\<exists>st. jsNormGame (JObj []) = Inr st
         \<and> jsNormGame (JObj [(''turn'', JArr [])]) = Inr (st\<lparr>ng_turn := ''white''\<rparr>))"
proof -
  have r0: "\<exists>st. rustNormGame (JObj []) = Inr st"
    by (simp add: rustNormGame_def andThen_def Let_def js_coalesce_def
      js_nullish_def js_array_map_def rustNormStatus_def lookupStatus_def rustStatusMap_def
      rustNormBoard_def objectPrototypeKeys_def)
  have g0: "\<exists>st. goNormGame (JObj []) = Inr st"
    by (simp add: goNormGame_def andThen_def Let_def js_coalesce_def
      js_nullish_def js_array_map_def goNormStatus_def lookupStatus_def goStatusMap_def
      objectPrototypeKeys_def)
  have j0: "\<exists>st. jsNormGame (JObj []) = Inr st"
    by (simp add: jsNormGame_def andThen_def Let_def js_coalesce_def
      js_nullish_def js_array_map_def)
  from r0 obtain tr where tr: "rustNormGame (JObj []) = Inr tr" by blast
  from g0 obtain tg where tg: "goNormGame (JObj []) = Inr tg" by blast
  from j0 obtain tj where tj: "jsNormGame (JObj []) = Inr tj" by blast
  have colours: "assertColor (JBool True) = ''white''" "assertColor (JArr []) = ''white''"
    "assertColor (JStr ''b'') = ''black''"
    "rustDeriveResult (field (JObj []) ''status'') (JBool True) = ''*''"
    by (simp_all add: assertColor_def rustDeriveResult_def js_includes_def)
  have r: "\<exists>st. rustNormGame malformedTurnRaw = Inr st"
    by (simp add: rustNormGame_def malformedTurnRaw_def andThen_def Let_def js_coalesce_def
      js_nullish_def js_array_map_def rustNormStatus_def lookupStatus_def rustStatusMap_def
      rustNormBoard_def)
  have g: "\<exists>st. goNormGame malformedTurnRaw = Inr st"
    by (simp add: goNormGame_def malformedTurnRaw_def andThen_def Let_def js_coalesce_def
      js_nullish_def js_array_map_def goNormStatus_def lookupStatus_def goStatusMap_def)
  have j: "\<exists>st. jsNormGame malformedTurnRaw = Inr st"
    by (simp add: jsNormGame_def malformedTurnRaw_def andThen_def Let_def js_coalesce_def
      js_nullish_def js_array_map_def)
  have f: "field malformedTurnRaw ''currentPlayer'' = JNum 3"
    "field malformedTurnRaw ''active_color'' = JNull" "field malformedTurnRaw ''turn'' = JUndefined"
    by (simp_all add: malformedTurnRaw_def)
  from r obtain sr where sr: "rustNormGame malformedTurnRaw = Inr sr" by blast
  from g obtain sg where sg: "goNormGame malformedTurnRaw = Inr sg" by blast
  from j obtain sj where sj: "jsNormGame malformedTurnRaw = Inr sj" by blast
  show ?thesis
    using normGame_turn_is_white_or_black[of "JNum 3" malformedTurnRaw sr]
      normGame_turn_is_white_or_black[of JNull malformedTurnRaw sg]
      normGame_turn_is_white_or_black[of JUndefined malformedTurnRaw sj]
      normGame_turn_is_white_or_black[of "JStr ''b''" goInProgressRaw]
      normGame_turn_is_white_or_black[where c = "JBool True" and kvs = "[]" and st = tr]
      normGame_turn_is_white_or_black[where c = "JStr ''b''" and kvs = "[]" and st = tg]
      normGame_turn_is_white_or_black[where c = "JArr []" and kvs = "[]" and st = tj]
      sr sg sj f goInProgress_norm tr tg tj colours
    by simp
qed

lemma rustNormStatus_documented:
  "rustNormStatus (JStr ''active'') = Inr (StatusStr ''active'')"
  "rustNormStatus (JStr ''check'') = Inr (StatusStr ''check'')"
  "rustNormStatus (JStr ''checkmate'') = Inr (StatusStr ''checkmate'')"
  "rustNormStatus (JStr ''stalemate'') = Inr (StatusStr ''stalemate'')"
  "rustNormStatus (JStr ''draw'') = Inr (StatusStr ''draw'')"
  "rustNormStatus (JStr ''insufficient_material'') = Inr (StatusStr ''insufficient_material'')"
  "rustNormStatus (JStr ''threefold_repetition'') = Inr (StatusStr ''threefold_repetition'')"
  "rustNormStatus (JStr ''fifty_move_rule'') = Inr (StatusStr ''fifty_move_rule'')"
  by (simp_all add: rustNormStatus_def lookupStatus_def rustStatusMap_def andThen_def)

lemma goNormStatus_documented:
  "goNormStatus (JStr ''in_progress'') = Inr (StatusStr ''active'')"
  "goNormStatus (JStr ''check'') = Inr (StatusStr ''check'')"
  "goNormStatus (JStr ''white_wins'') = Inr (StatusStr ''checkmate'')"
  "goNormStatus (JStr ''black_wins'') = Inr (StatusStr ''checkmate'')"
  "goNormStatus (JStr ''stalemate'') = Inr (StatusStr ''stalemate'')"
  "goNormStatus (JStr ''draw'') = Inr (StatusStr ''draw'')"
  "goNormStatus (JStr ''insufficient_material'') = Inr (StatusStr ''insufficient_material'')"
  "goNormStatus (JStr ''threefold_repetition'') = Inr (StatusStr ''threefold_repetition'')"
  "goNormStatus (JStr ''fifty_move_rule'') = Inr (StatusStr ''fifty_move_rule'')"
  by (simp_all add: goNormStatus_def lookupStatus_def goStatusMap_def andThen_def)

lemma normStatus_unrecognized:
  assumes "s \<notin> set objectPrototypeKeys"
  shows "s \<notin> set (map fst rustStatusMap) \<Longrightarrow> rustNormStatus (JStr s) = Inr (StatusStr ''active'')"
    and "s \<notin> set (map fst goStatusMap) \<Longrightarrow> goNormStatus (JStr s) = Inr (StatusStr ''active'')"
proof -
  have none: "\<And>table. s \<notin> set (map fst table) \<Longrightarrow> map_of table s = None"
    by (simp add: map_of_eq_None_iff)
  show "s \<notin> set (map fst rustStatusMap) \<Longrightarrow> rustNormStatus (JStr s) = Inr (StatusStr ''active'')"
    using assms none[of rustStatusMap] by (simp add: rustNormStatus_def lookupStatus_def andThen_def)
  show "s \<notin> set (map fst goStatusMap) \<Longrightarrow> goNormStatus (JStr s) = Inr (StatusStr ''active'')"
    using assms none[of goStatusMap] by (simp add: goNormStatus_def lookupStatus_def andThen_def)
qed

text \<open>
  Claim C5 holds for the documented status strings (\<open>rustNormStatus_documented\<close>,
  \<open>goNormStatus_documented\<close>) and for every other string that is not the name of a member
  of \<open>Object.prototype\<close> (\<open>normStatus_unrecognized\<close>). For the strings that are, the
  lookup \<open>map[s]\<close> in the object literal finds the inherited member, which is neither null
  nor undefined, so the fallback \<open>?? 'active'\<close> is not taken and the adapter returns that
  member instead of \<open>active\<close>.
\<close>

theorem normStatus_inherited_member:
  "rustNormStatus (JStr ''constructor'') = Inr (InheritedMember ''constructor'')
   \<and> goNormStatus (JStr ''constructor'') = Inr (InheritedMember ''constructor'')
   \<and> rustNormStatus (JStr ''toString'') = Inr (InheritedMember ''toString'')
   \<and> goNormStatus (JStr ''valueOf'') = Inr (InheritedMember ''valueOf'')"
  by (simp add: rustNormStatus_def goNormStatus_def lookupStatus_def rustStatusMap_def
      goStatusMap_def andThen_def objectPrototypeKeys_def)

subsection \<open>The remote provider: undo and error responses\<close>

lemma newRemoteProvider_fields:
  assumes "newRemoteProvider b baseUrl = Inr p"
  shows "b \<noteq> Local" "rp_backendId p = b" "rp_baseUrl p = stripTrailingSlashes baseUrl"
    "rp_adapter p = ADAPTERS b" "cap_undo (rp_capabilities p) = (b \<noteq> Go)"
  using assms
  by (cases b; auto simp: newRemoteProvider_def REMOTE_CAPS_def rustCapabilities_def
      goCapabilities_def jsCapabilities_def split: if_splits)+

lemma request_calls: "snd (request fetch u init calls) = calls @ [fetchArguments u init]"
  by (simp add: request_def Let_def)

lemma asyncFunction_no_throw: "asyncFunction body \<noteq> ThrownSynchronously e"
  by (simp add: asyncFunction_def split: sum.splits)

lemma undoMove_no_throw: "fst (undoMove fetch p gameId calls) \<noteq> ThrownSynchronously e"
  by (simp add: undoMove_def asyncFunction_no_throw split: sum.splits prod.splits)

lemma undoMove_calls:
  assumes "cap_undo (rp_capabilities p)" "rp_adapter p = Some a"
  shows "snd (undoMove fetch p gameId calls)
           = calls @ [\<lparr>req_url = rp_baseUrl p @ apiPrefix a @ ''/games/'' @ gameId @ ''/undo'',
                       req_method = Some ''POST'',
                       req_headers = [(''Content-Type'', ''application/json'')],
                       req_body = None, req_timeout = None\<rparr>]"
proof -
  let ?u = "rp_baseUrl p @ apiPrefix a @ ''/games/'' @ gameId @ ''/undo''"
  let ?init = "Some \<lparr>init_method = Some ''POST'', init_headers = [], init_body = None\<rparr>"
  have "snd (undoMove fetch p gameId calls) = snd (request fetch ?u ?init calls)"
    using assms
    by (cases "request fetch ?u ?init calls") (simp add: undoMove_def url_def)
  then show ?thesis by (simp add: request_calls fetchArguments_def)
qed

lemma goProvider_constructed: "newRemoteProvider Go ''http://localhost:8080'' = Inr goProvider"
  by (simp add: newRemoteProvider_def goProvider_def REMOTE_CAPS_def stripTrailingSlashes_def)

text \<open>
  The claim C4 as stated fails in one word, \<open>synchronously\<close>: \<open>undoMove\<close> is an \<open>async\<close>
  method, so on the go provider the call throws nothing; it returns a promise that is
  rejected with the capability error. No request is issued.
\<close>

theorem undoMove_go_rejects_without_throwing:
  "newRemoteProvider Go ''http://localhost:8080'' = Inr goProvider
   \<and> \<not> cap_undo (rp_capabilities goProvider)
   \<and> undoMove healthyNetwork goProvider ''1'' []
       = (RejectedPromise (PlainError ''Undo is not supported by the go backend''), [])
   \<and> \<not> (\<exists>e. fst (undoMove healthyNetwork goProvider ''1'' []) = ThrownSynchronously e)"
proof -
  have cap: "\<not> cap_undo (rp_capabilities goProvider)"
    by (simp add: goProvider_def goCapabilities_def)
  have run: "undoMove healthyNetwork goProvider ''1'' []
       = (RejectedPromise (PlainError ''Undo is not supported by the go backend''), [])"
    using cap by (simp add: undoMove_def asyncFunction_def backendIdString_def goProvider_def)
  from goProvider_constructed cap run show ?thesis by simp
qed

text \<open>
  Claim C4, as amended. \<open>undoMove\<close> never throws at the call. When the provider's
  capabilities lack undo, it returns a promise rejected with the error
  \<open>Undo is not supported by the <backend> backend\<close>, and the list of \<open>fetch\<close> calls is
  unchanged: no request was issued. That is the case for a provider constructed for the
  go backend. A provider constructed for rust or js has the capability, and its
  \<open>undoMove\<close> issues exactly one request: a POST to the base URL (trailing slashes
  stripped) followed by the adapter's prefix and \<open>/games/{id}/undo\<close>.
\<close>

theorem undoMove_capability_guard:
  "(\<forall>e. fst (undoMove fetch p gameId calls) \<noteq> ThrownSynchronously e)
   \<and> (\<not> cap_undo (rp_capabilities p) \<longrightarrow>
      undoMove fetch p gameId calls
        = (RejectedPromise
             (PlainError (''Undo is not supported by the '' @ backendIdString (rp_backendId p)
                          @ '' backend'')), calls))
   \<and> (newRemoteProvider Go baseUrl = Inr p \<longrightarrow>
        undoMove fetch p gameId calls
          = (RejectedPromise (PlainError ''Undo is not supported by the go backend''), calls))
   \<and> ((b = Rust \<or> b = Js) \<and> newRemoteProvider b baseUrl = Inr p \<longrightarrow>
        cap_undo (rp_capabilities p)
        \<and> snd (undoMove fetch p gameId calls)
            = calls @ [\<lparr>req_url = stripTrailingSlashes baseUrl
                                    @ (if b = Js then ''/api/v1'' else ''/api'')
                                    @ ''/games/'' @ gameId @ ''/undo'',
                        req_method = Some ''POST'',
                        req_headers = [(''Content-Type'', ''application/json'')],
                        req_body = None, req_timeout = None\<rparr>])"
proof -
  have never: "\<forall>e. fst (undoMove fetch p gameId calls) \<noteq> ThrownSynchronously e"
    using undoMove_no_throw[of fetch p gameId calls] by blast
  have guard: "\<not> cap_undo (rp_capabilities p) \<longrightarrow>
      undoMove fetch p gameId calls
        = (RejectedPromise
             (PlainError (''Undo is not supported by the '' @ backendIdString (rp_backendId p)
                          @ '' backend'')), calls)"
    by (simp add: undoMove_def asyncFunction_def)
  have go: "newRemoteProvider Go baseUrl = Inr p \<longrightarrow>
        undoMove fetch p gameId calls
          = (RejectedPromise (PlainError ''Undo is not supported by the go backend''), calls)"
    using newRemoteProvider_fields(2,5)[of Go baseUrl p]
    by (auto simp: undoMove_def asyncFunction_def backendIdString_def)
  have one: "(b = Rust \<or> b = Js) \<and> newRemoteProvider b baseUrl = Inr p \<longrightarrow>
        cap_undo (rp_capabilities p)
        \<and> snd (undoMove fetch p gameId calls)
            = calls @ [\<lparr>req_url = stripTrailingSlashes baseUrl
                                    @ (if b = Js then ''/api/v1'' else ''/api'')
                                    @ ''/games/'' @ gameId @ ''/undo'',
                        req_method = Some ''POST'',
                        req_headers = [(''Content-Type'', ''application/json'')],
                        req_body = None, req_timeout = None\<rparr>]"
  proof (intro impI, elim conjE)
    assume b: "b = Rust \<or> b = Js" and p: "newRemoteProvider b baseUrl = Inr p"
    note f = newRemoteProvider_fields[OF p]
    from b f(5) have cap: "cap_undo (rp_capabilities p)" by auto
    from b f(4) obtain a where a: "rp_adapter p = Some a"
      and pre: "apiPrefix a = (if b = Js then ''/api/v1'' else ''/api'')"
      by (auto simp: ADAPTERS_def)
    from undoMove_calls[OF cap a, of fetch gameId calls] f(3) pre cap
    show "cap_undo (rp_capabilities p)
        \<and> snd (undoMove fetch p gameId calls)
            = calls @ [\<lparr>req_url = stripTrailingSlashes baseUrl
                                    @ (if b = Js then ''/api/v1'' else ''/api'')
                                    @ ''/games/'' @ gameId @ ''/undo'',
                        req_method = Some ''POST'',
                        req_headers = [(''Content-Type'', ''application/json'')],
                        req_body = None, req_timeout = None\<rparr>]"
      by simp
  qed
  from never guard go one show ?thesis by blast
qed






subsection \<open>Backend selection\<close>

lemma remote_url:
  assumes "b = Rust \<or> b = Go"
  shows "(case cfg_url (backends st b) of
            Some u \<Rightarrow> u
          | None \<Rightarrow> (case cfg_url (BACKEND_PRESETS b) of Some u \<Rightarrow> u | None \<Rightarrow> d))
         = (case bs_urlOverrides st b of
              Some u \<Rightarrow> u
            | None \<Rightarrow> if b = Rust then ''http://localhost:8082'' else ''http://localhost:8080'')"
  using assms by (auto simp: backends_def BACKEND_PRESETS_def split: option.splits)

text \<open>
  Claim C3 does not hold of the code for the js backend. The presets and the remote
  provider treat js as a REST backend with a URL, an adapter and capabilities of its
  own, and the claim says that switching to it constructs a \<open>RemoteProvider\<close> and
  resolves the connection by one health check. The component does neither: for every
  state and every custom URL, after \<open>switchBackend\<close> to js the provider is a
  \<open>LocalProvider\<close>; \<open>connected\<close> is reset to null, and a check on that state sets it to
  true at once, leaving no request pending and the list of \<open>fetch\<close> calls as it was.
  So it goes for a component that starts on rust and is switched to js while its first
  check is pending: a check follows the switch, and the only request ever issued is the
  one to the rust backend. A component started on js has a \<open>LocalProvider\<close> and is
  connected from the first render.
\<close>

theorem switch_to_js_builds_local_provider:
  "provider (switchBackend st Js customUrl) = Inr LocalProviderInstance
   \<and> bs_backendId (switchBackend st Js customUrl) = Js
   \<and> bs_connected (switchBackend st Js customUrl) = None
   \<and> checkConnection (switchBackend st Js customUrl) calls
       = ((switchBackend st Js customUrl)\<lparr>bs_connected := Some True, bs_connectionError := None\<rparr>,
          calls, None)
   \<and> (let started = checkConnection (initialBackendState Rust noOverrides) [];
            switched = switchBackend (fst started) Js None;
            rechecked = checkConnection switched (fst (snd started))
        in checkFollowsSwitch (fst started) Js None
           \<and> provider switched = Inr LocalProviderInstance
           \<and> fst (snd rechecked)
               = [\<lparr>req_url = ''http://localhost:8082/health'', req_method = None,
                   req_headers = [], req_body = None, req_timeout = Some 5000\<rparr>]
           \<and> snd (snd rechecked) = None
           \<and> bs_connected (fst rechecked) = Some True)
   \<and> provider (initialBackendState Js noOverrides) = Inr LocalProviderInstance
   \<and> bs_connected (initialBackendState Js noOverrides) = Some True"
proof -
  have every: "provider (switchBackend st Js customUrl) = Inr LocalProviderInstance
     \<and> bs_backendId (switchBackend st Js customUrl) = Js
     \<and> bs_connected (switchBackend st Js customUrl) = None
     \<and> checkConnection (switchBackend st Js customUrl) calls
         = ((switchBackend st Js customUrl)\<lparr>bs_connected := Some True, bs_connectionError := None\<rparr>,
            calls, None)"
    by (simp add: provider_def switchBackend_def checkConnection_def Let_def)
  have run: "(let started = checkConnection (initialBackendState Rust noOverrides) [];
            switched = switchBackend (fst started) Js None;
            rechecked = checkConnection switched (fst (snd started))
        in checkFollowsSwitch (fst started) Js None
           \<and> provider switched = Inr LocalProviderInstance
           \<and> fst (snd rechecked)
               = [\<lparr>req_url = ''http://localhost:8082/health'', req_method = None,
                   req_headers = [], req_body = None, req_timeout = Some 5000\<rparr>]
           \<and> snd (snd rechecked) = None
           \<and> bs_connected (fst rechecked) = Some True)"
    by (simp add: Let_def provider_def switchBackend_def checkConnection_def
        checkFollowsSwitch_def initialBackendState_def noOverrides_def backends_def
        BACKEND_PRESETS_def)
  have first: "provider (initialBackendState Js noOverrides) = Inr LocalProviderInstance
     \<and> bs_connected (initialBackendState Js noOverrides) = Some True"
    by (simp add: provider_def initialBackendState_def)
  from every run first show ?thesis by simp
qed

text \<open>
  For the rust and the go backend the provider and the health check are as the claim
  says: the provider is a \<open>RemoteProvider\<close> for that backend at its URL (the override,
  else the preset), and the check issues exactly one request, to \<open>{url}/health\<close> with a
  timeout of 5000 ms, and sets \<open>checking\<close>. When the request settles, an ok response sets
  \<open>connected\<close> to true and clears the error, any other response sets it to false with the
  message \<open>Health check returned <status>\<close>, and a rejected request sets it to false with
  the error's message (or \<open>Cannot reach backend\<close>).
\<close>

lemma remote_backend_health_check:
  assumes remote: "bs_backendId s = Rust \<or> bs_backendId s = Go"
  shows "provider s
           = Inr (RemoteProviderInstance
               \<lparr>rp_backendId = bs_backendId s,
                rp_capabilities = (if bs_backendId s = Rust then rustCapabilities
                                   else goCapabilities),
                rp_baseUrl = stripTrailingSlashes
                  (case bs_urlOverrides s (bs_backendId s) of
                     Some u \<Rightarrow> u
                   | None \<Rightarrow> if bs_backendId s = Rust then ''http://localhost:8082''
                             else ''http://localhost:8080''),
                rp_adapter = ADAPTERS (bs_backendId s)\<rparr>)"
    and "checkConnection s calls
           = (s\<lparr>bs_checking := True\<rparr>,
              calls @ [\<lparr>req_url = (case bs_urlOverrides s (bs_backendId s) of
                                     Some u \<Rightarrow> u
                                   | None \<Rightarrow> if bs_backendId s = Rust then ''http://localhost:8082''
                                             else ''http://localhost:8080'') @ ''/health'',
                        req_method = None, req_headers = [], req_body = None,
                        req_timeout = Some 5000\<rparr>],
              Some \<lparr>req_url = (case bs_urlOverrides s (bs_backendId s) of
                                 Some u \<Rightarrow> u
                               | None \<Rightarrow> if bs_backendId s = Rust then ''http://localhost:8082''
                                         else ''http://localhost:8080'') @ ''/health'',
                    req_method = None, req_headers = [], req_body = None,
                    req_timeout = Some 5000\<rparr>)"
proof -
  note u1 = remote_url[where st = s and d = "''http://localhost:8083''", OF remote]
  note u2 = remote_url[where st = s and d = "[]", OF remote]
  show "provider s
           = Inr (RemoteProviderInstance
               \<lparr>rp_backendId = bs_backendId s,
                rp_capabilities = (if bs_backendId s = Rust then rustCapabilities
                                   else goCapabilities),
                rp_baseUrl = stripTrailingSlashes
                  (case bs_urlOverrides s (bs_backendId s) of
                     Some u \<Rightarrow> u
                   | None \<Rightarrow> if bs_backendId s = Rust then ''http://localhost:8082''
                             else ''http://localhost:8080''),
                rp_adapter = ADAPTERS (bs_backendId s)\<rparr>)"
    using remote u1
    by (auto simp: provider_def Let_def newRemoteProvider_def andThen_def REMOTE_CAPS_def)
  show "checkConnection s calls
           = (s\<lparr>bs_checking := True\<rparr>,
              calls @ [\<lparr>req_url = (case bs_urlOverrides s (bs_backendId s) of
                                     Some u \<Rightarrow> u
                                   | None \<Rightarrow> if bs_backendId s = Rust then ''http://localhost:8082''
                                             else ''http://localhost:8080'') @ ''/health'',
                        req_method = None, req_headers = [], req_body = None,
                        req_timeout = Some 5000\<rparr>],
              Some \<lparr>req_url = (case bs_urlOverrides s (bs_backendId s) of
                                 Some u \<Rightarrow> u
                               | None \<Rightarrow> if bs_backendId s = Rust then ''http://localhost:8082''
                                         else ''http://localhost:8080'') @ ''/health'',
                    req_method = None, req_headers = [], req_body = None,
                    req_timeout = Some 5000\<rparr>)"
    using remote u2 by (auto simp: checkConnection_def Let_def)
qed

lemma checkConnection_settled_fields:
  "bs_connected (checkConnection_settled settled s)
     = (case settled of Inr res \<Rightarrow> Some (res_ok res) | Inl err \<Rightarrow> Some False)"
  "bs_connectionError (checkConnection_settled settled s)
     = (case settled of
          Inr res \<Rightarrow> if res_ok res then None
                     else Some (''Health check returned '' @ string_of_nat (res_status res))
        | Inl (ErrorInstance message) \<Rightarrow> Some message
        | Inl OtherValue \<Rightarrow> Some ''Cannot reach backend'')"
  "bs_checking (checkConnection_settled settled s) = False"
  "bs_backendId (checkConnection_settled settled s) = bs_backendId s"
  by (auto simp: checkConnection_settled_def split: sum.splits thrown.splits)

text \<open>
  The outcome of a switch is not that of its own health check alone. A component starts
  on rust, whose backend cannot be reached, and its first check is pending when the
  user switches to go. The check of go is answered first and sets \<open>connected\<close> to true;
  the check of rust fails afterwards and sets it to false, with go still the active
  backend.
\<close>

lemma pending_check_overwrites_later_switch:
  "(let rustHealth = \<lparr>req_url = ''http://localhost:8082/health'', req_method = None,
                      req_headers = [], req_body = None, req_timeout = Some 5000\<rparr>;
        goHealth = \<lparr>req_url = ''http://localhost:8080/health'', req_method = None,
                    req_headers = [], req_body = None, req_timeout = Some 5000\<rparr>;
        started = checkConnection (initialBackendState Rust noOverrides) [];
        switched = switchBackend (fst started) Go None;
        rechecked = checkConnection switched (fst (snd started));
        goAnswered = checkConnection_settled (rustDownNetwork goHealth) (fst rechecked);
        rustFailed = checkConnection_settled (rustDownNetwork rustHealth) goAnswered
    in snd (snd started) = Some rustHealth
       \<and> checkFollowsSwitch (fst started) Go None
       \<and> fst (snd rechecked) = [rustHealth, goHealth]
       \<and> snd (snd rechecked) = Some goHealth
       \<and> bs_connected goAnswered = Some True
       \<and> bs_backendId rustFailed = Go
       \<and> bs_connected rustFailed = Some False
       \<and> bs_connectionError rustFailed = Some ''Failed to fetch'')"
  by (simp add: Let_def checkConnection_def checkConnection_settled_def switchBackend_def
      checkFollowsSwitch_def initialBackendState_def noOverrides_def backends_def
      BACKEND_PRESETS_def rustDownNetwork_def res_ok_def)

text \<open>
  And a switch to the backend that is already active, without a URL, resets \<open>connected\<close>
  to null and is followed by no check: the state stays at checking.
\<close>

lemma switch_to_active_backend_stays_checking:
  "(let rustHealth = \<lparr>req_url = ''http://localhost:8082/health'', req_method = None,
                      req_headers = [], req_body = None, req_timeout = Some 5000\<rparr>;
        started = checkConnection (initialBackendState Rust noOverrides) [];
        connected = checkConnection_settled (healthyNetwork rustHealth) (fst started);
        switched = switchBackend connected Rust None
    in bs_connected connected = Some True
       \<and> bs_connected switched = None
       \<and> \<not> checkFollowsSwitch connected Rust None)"
  by (simp add: Let_def checkConnection_def checkConnection_settled_def switchBackend_def
      checkFollowsSwitch_def initialBackendState_def healthyNetwork_def res_ok_def)

text \<open>Undo on a go provider and on a js provider.\<close>

theorem undoMove_capability_guard_witness:
  "(\<exists>p. newRemoteProvider Go ''http://localhost:8080/'' = Inr p
        \<and> \<not> cap_undo (rp_capabilities p)
        \<and> undoMove unreachableNetwork p ''7'' []
            = (RejectedPromise (PlainError ''Undo is not supported by the go backend''), [])
        \<and> (\<forall>e. fst (undoMove unreachableNetwork p ''7'' []) \<noteq> ThrownSynchronously e))
   \<and> (\<exists>p. newRemoteProvider Js ''http://localhost:8081/'' = Inr p
        \<and> cap_undo (rp_capabilities p)
        \<and> snd (undoMove healthyNetwork p ''uuid-1'' [])
            = [\<lparr>req_url = ''http://localhost:8081/api/v1/games/uuid-1/undo'',
                req_method = Some ''POST'',
                req_headers = [(''Content-Type'', ''application/json'')],
                req_body = None, req_timeout = None\<rparr>])"
proof -
  obtain pg where pg: "newRemoteProvider Go ''http://localhost:8080/'' = Inr pg"
    by (simp add: newRemoteProvider_def)
  obtain pj where pj: "newRemoteProvider Js ''http://localhost:8081/'' = Inr pj"
    by (simp add: newRemoteProvider_def)
  have strip: "stripTrailingSlashes ''http://localhost:8081/'' = ''http://localhost:8081''"
    by (simp add: stripTrailingSlashes_def)
  from undoMove_capability_guard[of unreachableNetwork pg "''7''" "[]" "''http://localhost:8080/''" Go]
    newRemoteProvider_fields(5)[OF pg] pg
  have g: "\<exists>p. newRemoteProvider Go ''http://localhost:8080/'' = Inr p
        \<and> \<not> cap_undo (rp_capabilities p)
        \<and> undoMove unreachableNetwork p ''7'' []
            = (RejectedPromise (PlainError ''Undo is not supported by the go backend''), [])
        \<and> (\<forall>e. fst (undoMove unreachableNetwork p ''7'' []) \<noteq> ThrownSynchronously e)"
    by blast
  from undoMove_capability_guard[of healthyNetwork pj "''uuid-1''" "[]" "''http://localhost:8081/''" Js]
    pj strip
  have j: "\<exists>p. newRemoteProvider Js ''http://localhost:8081/'' = Inr p
        \<and> cap_undo (rp_capabilities p)
        \<and> snd (undoMove healthyNetwork p ''uuid-1'' [])
            = [\<lparr>req_url = ''http://localhost:8081/api/v1/games/uuid-1/undo'',
                req_method = Some ''POST'',
                req_headers = [(''Content-Type'', ''application/json'')],
                req_body = None, req_timeout = None\<rparr>]"
    by simp
  from g j show ?thesis by blast
qed

end
